theory Spec2Isabelle
  imports Main "HOL-Library.Sublist"
begin

section \<open>Strings and JSON values as the synchronizer uses them\<close>

text \<open>
  Paths, names and keys are Python \<^verbatim>\<open>str\<close> values, modelled as \<^typ>\<open>string\<close>.
  The only separator the code inspects is the ASCII slash.
\<close>

definition startswith :: "string \<Rightarrow> string \<Rightarrow> bool" where
  "startswith s pre = (take (length pre) s = pre)"

definition endswith :: "string \<Rightarrow> string \<Rightarrow> bool" where
  "endswith s suf = (length suf \<le> length s \<and> drop (length s - length suf) s = suf)"

definition is_slash :: "char \<Rightarrow> bool" where
  "is_slash c = (c = CHR ''/'')"

text \<open>\<^verbatim>\<open>s.rstrip('/')\<close>, \<^verbatim>\<open>s.lstrip('/')\<close> and \<^verbatim>\<open>s.strip('/')\<close>.\<close>

definition rstrip :: "string \<Rightarrow> string" where
  "rstrip s = rev (dropWhile is_slash (rev s))"

definition lstrip :: "string \<Rightarrow> string" where
  "lstrip s = dropWhile is_slash s"

definition strip :: "string \<Rightarrow> string" where
  "strip s = rstrip (lstrip s)"

text \<open>
  Values decoded from a reply body. A Python \<^verbatim>\<open>dict\<close> is the list of its items in
  insertion order; of a number only its truth value is ever inspected.
\<close>

datatype json =
    JNull
  | JBool bool
  | JNum int
  | JStr string
  | JArr "json list"
  | JObj "(string \<times> json) list"

type_synonym dict = "(string \<times> json) list"

text \<open>Python truthiness (\<^verbatim>\<open>if not x\<close>).\<close>

fun truthy :: "json \<Rightarrow> bool" where
  "truthy JNull = False"
| "truthy (JBool b) = b"
| "truthy (JNum n) = (n \<noteq> 0)"
| "truthy (JStr s) = (s \<noteq> [])"
| "truthy (JArr xs) = (xs \<noteq> [])"
| "truthy (JObj kv) = (kv \<noteq> [])"

text \<open>\<^verbatim>\<open>d.get(k, default)\<close> on a dict.\<close>

definition dict_get :: "dict \<Rightarrow> string \<Rightarrow> json \<Rightarrow> json" where
  "dict_get d k dflt = (case map_of d k of None \<Rightarrow> dflt | Some v \<Rightarrow> v)"

section \<open>The two clients and the record of what a pass does\<close>

datatype target = Primary | Secondary

text \<open>
  An exception that is not a \<^verbatim>\<open>RequestException\<close>, with its message. The client methods
  catch \<^verbatim>\<open>RequestException\<close> themselves; anything else reaches the synchronizer.
\<close>

datatype exn = AttributeError string | Unexpected string

text \<open>\<^verbatim>\<open>str(e)\<close>; an \<^verbatim>\<open>AttributeError\<close> carries the name of the offending type.\<close>

fun exn_str :: "exn \<Rightarrow> string" where
  "exn_str (AttributeError ty) = ty @ '' object has no attribute get''"
| "exn_str (Unexpected m) = m"

fun py_type :: "json \<Rightarrow> string" where
  "py_type JNull = ''NoneType''"
| "py_type (JBool b) = ''bool''"
| "py_type (JNum n) = ''int''"
| "py_type (JStr s) = ''str''"
| "py_type (JArr xs) = ''list''"
| "py_type (JObj kv) = ''dict''"

text \<open>The methods of \<^verbatim>\<open>OpenBaoClient\<close> that the synchronizer calls, with their arguments.\<close>

datatype call =
    HealthCheck
  | ListSecrets string
  | ReadSecret string
  | WriteSecret string dict
  | ListAuthMethods
  | EnableAuthMethod string json json
  | DisableAuthMethod string
  | ListSecretEngines
  | EnableSecretEngine string json json
  | DisableSecretEngine string
  | ListPolicies
  | ReadPolicy string
  | WritePolicy string string
  | DeletePolicy string

datatype response =
    RBool bool
  | RDict dict
  | RNames "string list"
  | RSecret "dict option"
  | RPolicy "string option"
  | RRaise exn

datatype level = DEBUG | INFO | WARNING | ERROR

text \<open>
  An event is a client call with the value it returned, or a call of the module's logger:
  level, the message with its placeholders as written in the source, and the values
  interpolated.
\<close>

datatype event =
    Call target call response
  | Log level string "json list"

type_synonym trace = "event list"

text \<open>
  A client is what \<^verbatim>\<open>Mock(spec=OpenBaoClient)\<close> is in the test suite: for every method a
  reply, which may depend on everything that happened before (the trace so far). The
  methods returning \<^verbatim>\<open>bool\<close> turn every request failure into \<^verbatim>\<open>False\<close>; the listing and
  reading methods can still raise on a malformed reply.
\<close>

record client =
  health_check :: "trace \<Rightarrow> bool"
  list_secrets :: "string \<Rightarrow> trace \<Rightarrow> exn + string list"
  read_secret :: "string \<Rightarrow> trace \<Rightarrow> exn + dict option"
  write_secret :: "string \<Rightarrow> dict \<Rightarrow> trace \<Rightarrow> bool"
  list_auth_methods :: "trace \<Rightarrow> exn + dict"
  enable_auth_method :: "string \<Rightarrow> json \<Rightarrow> json \<Rightarrow> trace \<Rightarrow> bool"
  disable_auth_method :: "string \<Rightarrow> trace \<Rightarrow> bool"
  list_secret_engines :: "trace \<Rightarrow> exn + dict"
  enable_secret_engine :: "string \<Rightarrow> json \<Rightarrow> json \<Rightarrow> trace \<Rightarrow> bool"
  disable_secret_engine :: "string \<Rightarrow> trace \<Rightarrow> bool"
  list_policies :: "trace \<Rightarrow> exn + string list"
  read_policy :: "string \<Rightarrow> trace \<Rightarrow> exn + string option"
  write_policy :: "string \<Rightarrow> string \<Rightarrow> trace \<Rightarrow> bool"
  delete_policy :: "string \<Rightarrow> trace \<Rightarrow> bool"

text \<open>\<^verbatim>\<open>class ReplicationSynchronizer\<close>: the fields set by \<^verbatim>\<open>__init__\<close>.\<close>

record synchronizer =
  primary :: client
  secondary :: client
  exclude_paths :: "string list"

definition init :: "client \<Rightarrow> client \<Rightarrow> string list option \<Rightarrow> synchronizer" where
  "init primary_client secondary_client excl =
     \<lparr>primary = primary_client, secondary = secondary_client,
      exclude_paths = (case excl of None \<Rightarrow> [] | Some xs \<Rightarrow> xs)\<rparr>"

section \<open>The path filter\<close>

fun should_exclude_loop :: "string list \<Rightarrow> string \<Rightarrow> bool" where
  "should_exclude_loop [] path = False"
| "should_exclude_loop (exclude # rest) path =
     (if startswith path exclude then True else should_exclude_loop rest path)"

definition should_exclude_path :: "synchronizer \<Rightarrow> string \<Rightarrow> bool" where
  "should_exclude_path self path = should_exclude_loop (exclude_paths self) path"

section \<open>Calling a client\<close>

definition logger :: "level \<Rightarrow> string \<Rightarrow> json list \<Rightarrow> trace \<Rightarrow> trace" where
  "logger lvl msg args h = h @ [Log lvl msg args]"

definition client_of :: "target \<Rightarrow> synchronizer \<Rightarrow> client" where
  "client_of t self = (case t of Primary \<Rightarrow> primary self | Secondary \<Rightarrow> secondary self)"

definition returned :: "target \<Rightarrow> call \<Rightarrow> response \<Rightarrow> trace \<Rightarrow> trace" where
  "returned t c r h = h @ [Call t c r]"

definition call_health_check :: "target \<Rightarrow> synchronizer \<Rightarrow> trace \<Rightarrow> bool \<times> trace" where
  "call_health_check t self h =
     (let b = health_check (client_of t self) h in (b, returned t HealthCheck (RBool b) h))"

definition call_list_secrets ::
  "target \<Rightarrow> synchronizer \<Rightarrow> string \<Rightarrow> trace \<Rightarrow> (exn + string list) \<times> trace" where
  "call_list_secrets t self path h =
     (let r = list_secrets (client_of t self) path h in
      (r, returned t (ListSecrets path) (case r of Inl e \<Rightarrow> RRaise e | Inr ks \<Rightarrow> RNames ks) h))"

definition call_read_secret ::
  "target \<Rightarrow> synchronizer \<Rightarrow> string \<Rightarrow> trace \<Rightarrow> (exn + dict option) \<times> trace" where
  "call_read_secret t self path h =
     (let r = read_secret (client_of t self) path h in
      (r, returned t (ReadSecret path) (case r of Inl e \<Rightarrow> RRaise e | Inr d \<Rightarrow> RSecret d) h))"

definition call_write_secret ::
  "target \<Rightarrow> synchronizer \<Rightarrow> string \<Rightarrow> dict \<Rightarrow> trace \<Rightarrow> bool \<times> trace" where
  "call_write_secret t self path d h =
     (let b = write_secret (client_of t self) path d h in
      (b, returned t (WriteSecret path d) (RBool b) h))"

definition call_list_auth_methods ::
  "target \<Rightarrow> synchronizer \<Rightarrow> trace \<Rightarrow> (exn + dict) \<times> trace" where
  "call_list_auth_methods t self h =
     (let r = list_auth_methods (client_of t self) h in
      (r, returned t ListAuthMethods (case r of Inl e \<Rightarrow> RRaise e | Inr d \<Rightarrow> RDict d) h))"

definition call_enable_auth_method ::
  "target \<Rightarrow> synchronizer \<Rightarrow> string \<Rightarrow> json \<Rightarrow> json \<Rightarrow> trace \<Rightarrow> bool \<times> trace" where
  "call_enable_auth_method t self path ty cfg h =
     (let b = enable_auth_method (client_of t self) path ty cfg h in
      (b, returned t (EnableAuthMethod path ty cfg) (RBool b) h))"

definition call_disable_auth_method ::
  "target \<Rightarrow> synchronizer \<Rightarrow> string \<Rightarrow> trace \<Rightarrow> bool \<times> trace" where
  "call_disable_auth_method t self path h =
     (let b = disable_auth_method (client_of t self) path h in
      (b, returned t (DisableAuthMethod path) (RBool b) h))"

definition call_list_secret_engines ::
  "target \<Rightarrow> synchronizer \<Rightarrow> trace \<Rightarrow> (exn + dict) \<times> trace" where
  "call_list_secret_engines t self h =
     (let r = list_secret_engines (client_of t self) h in
      (r, returned t ListSecretEngines (case r of Inl e \<Rightarrow> RRaise e | Inr d \<Rightarrow> RDict d) h))"

definition call_enable_secret_engine ::
  "target \<Rightarrow> synchronizer \<Rightarrow> string \<Rightarrow> json \<Rightarrow> json \<Rightarrow> trace \<Rightarrow> bool \<times> trace" where
  "call_enable_secret_engine t self path ty cfg h =
     (let b = enable_secret_engine (client_of t self) path ty cfg h in
      (b, returned t (EnableSecretEngine path ty cfg) (RBool b) h))"

definition call_disable_secret_engine ::
  "target \<Rightarrow> synchronizer \<Rightarrow> string \<Rightarrow> trace \<Rightarrow> bool \<times> trace" where
  "call_disable_secret_engine t self path h =
     (let b = disable_secret_engine (client_of t self) path h in
      (b, returned t (DisableSecretEngine path) (RBool b) h))"

definition call_list_policies ::
  "target \<Rightarrow> synchronizer \<Rightarrow> trace \<Rightarrow> (exn + string list) \<times> trace" where
  "call_list_policies t self h =
     (let r = list_policies (client_of t self) h in
      (r, returned t ListPolicies (case r of Inl e \<Rightarrow> RRaise e | Inr ns \<Rightarrow> RNames ns) h))"

definition call_read_policy ::
  "target \<Rightarrow> synchronizer \<Rightarrow> string \<Rightarrow> trace \<Rightarrow> (exn + string option) \<times> trace" where
  "call_read_policy t self name h =
     (let r = read_policy (client_of t self) name h in
      (r, returned t (ReadPolicy name) (case r of Inl e \<Rightarrow> RRaise e | Inr d \<Rightarrow> RPolicy d) h))"

definition call_write_policy ::
  "target \<Rightarrow> synchronizer \<Rightarrow> string \<Rightarrow> string \<Rightarrow> trace \<Rightarrow> bool \<times> trace" where
  "call_write_policy t self name doc h =
     (let b = write_policy (client_of t self) name doc h in
      (b, returned t (WritePolicy name doc) (RBool b) h))"

definition call_delete_policy ::
  "target \<Rightarrow> synchronizer \<Rightarrow> string \<Rightarrow> trace \<Rightarrow> bool \<times> trace" where
  "call_delete_policy t self name h =
     (let b = delete_policy (client_of t self) name h in
      (b, returned t (DeletePolicy name) (RBool b) h))"

section \<open>Health check and cluster reset\<close>

text \<open>\<^verbatim>\<open>_health_check\<close>: the secondary is asked only when the primary is healthy.\<close>

definition health_check_both :: "synchronizer \<Rightarrow> trace \<Rightarrow> bool \<times> trace" where
  "health_check_both self h0 =
     (let h1 = logger INFO ''Performing health checks'' [] h0 in
      case call_health_check Primary self h1 of
        (False, h2) \<Rightarrow> (False, logger ERROR ''Primary OpenBao instance is not healthy'' [] h2)
      | (True, h2) \<Rightarrow>
          (case call_health_check Secondary self h2 of
             (False, h3) \<Rightarrow>
               (False, logger ERROR ''Secondary OpenBao instance is not healthy'' [] h3)
           | (True, h3) \<Rightarrow> (True, logger INFO ''Health checks passed'' [] h3)))"

text \<open>The three loops of \<^verbatim>\<open>_clear_secondary\<close>; the value a disable or delete returns is dropped.\<close>

fun disable_engines_loop :: "synchronizer \<Rightarrow> dict \<Rightarrow> trace \<Rightarrow> trace" where
  "disable_engines_loop self [] h = h"
| "disable_engines_loop self ((path, config) # rest) h =
     (if \<not> startswith path ''sys/'' \<and> \<not> startswith path ''identity/'' then
        (let h1 = logger INFO ''Disabling secret engine: {path}'' [JStr path] h;
             h2 = snd (call_disable_secret_engine Secondary self (rstrip path) h1)
         in disable_engines_loop self rest h2)
      else disable_engines_loop self rest h)"

fun disable_auth_loop :: "synchronizer \<Rightarrow> dict \<Rightarrow> trace \<Rightarrow> trace" where
  "disable_auth_loop self [] h = h"
| "disable_auth_loop self ((path, config) # rest) h =
     (if path \<noteq> ''token/'' \<and> \<not> startswith path ''sys/'' then
        (let h1 = logger INFO ''Disabling auth method: {path}'' [JStr path] h;
             h2 = snd (call_disable_auth_method Secondary self (rstrip path) h1)
         in disable_auth_loop self rest h2)
      else disable_auth_loop self rest h)"

definition system_policies :: "string set" where
  "system_policies = {''root'', ''default''}"

fun delete_policies_loop :: "synchronizer \<Rightarrow> string list \<Rightarrow> trace \<Rightarrow> trace" where
  "delete_policies_loop self [] h = h"
| "delete_policies_loop self (policy # rest) h =
     (if policy \<notin> system_policies then
        (let h1 = logger INFO ''Deleting policy: {policy}'' [JStr policy] h;
             h2 = snd (call_delete_policy Secondary self policy h1)
         in delete_policies_loop self rest h2)
      else delete_policies_loop self rest h)"

text \<open>The \<^verbatim>\<open>except Exception\<close> clause of \<^verbatim>\<open>_clear_secondary\<close>.\<close>

definition clear_failed :: "exn \<Rightarrow> trace \<Rightarrow> bool \<times> trace" where
  "clear_failed e h =
     (False, logger ERROR ''Failed to clear secondary cluster: {e}'' [JStr (exn_str e)] h)"

definition clear_secondary :: "synchronizer \<Rightarrow> trace \<Rightarrow> bool \<times> trace" where
  "clear_secondary self h0 =
     (let h1 = logger INFO ''Clearing secondary cluster data'' [] h0 in
      case call_list_secret_engines Secondary self h1 of
        (Inl e, h2) \<Rightarrow> clear_failed e h2
      | (Inr secret_engines, h2) \<Rightarrow>
          (let h3 = disable_engines_loop self secret_engines h2 in
           case call_list_auth_methods Secondary self h3 of
             (Inl e, h4) \<Rightarrow> clear_failed e h4
           | (Inr auth_methods, h4) \<Rightarrow>
               (let h5 = disable_auth_loop self auth_methods h4 in
                case call_list_policies Secondary self h5 of
                  (Inl e, h6) \<Rightarrow> clear_failed e h6
                | (Inr policies, h6) \<Rightarrow>
                    (let h7 = delete_policies_loop self policies h6 in
                     (True, logger INFO ''Secondary cluster cleared successfully'' [] h7)))))"


section \<open>Configuration replicators\<close>

text \<open>
  The loop bodies of \<^verbatim>\<open>_sync_secret_engines\<close>, \<^verbatim>\<open>_sync_auth_methods\<close> and
  \<^verbatim>\<open>_sync_policies\<close>, with the local variable \<^verbatim>\<open>success\<close> as an accumulator. A loop ends
  with \<open>Inl e\<close> when an exception leaves it: \<^verbatim>\<open>config.get\<close> on a listing value that is no
  dict, or a raising \<^verbatim>\<open>read_policy\<close>.
\<close>

fun sync_engines_loop ::
  "synchronizer \<Rightarrow> dict \<Rightarrow> bool \<Rightarrow> trace \<Rightarrow> (exn + bool) \<times> trace" where
  "sync_engines_loop self [] success h = (Inr success, h)"
| "sync_engines_loop self ((path, config) # rest) success h =
     (if should_exclude_path self path then
        sync_engines_loop self rest success
          (logger DEBUG ''Skipping excluded secret engine: {path}'' [JStr path] h)
      else if startswith path ''sys/'' \<or> startswith path ''identity/'' then
        sync_engines_loop self rest success h
      else
        (case config of
           JObj cfg \<Rightarrow>
             (let engine_type = dict_get cfg ''type'' JNull in
              if \<not> truthy engine_type then
                sync_engines_loop self rest success
                  (logger WARNING ''No type found for secret engine: {path}'' [JStr path] h)
              else
                (let h1 = logger INFO ''Enabling secret engine: {path} (type: {engine_type})''
                            [JStr path, engine_type] h;
                     engine_config = JObj
                       [(''description'', dict_get cfg ''description'' (JStr [])),
                        (''config'', dict_get cfg ''config'' (JObj [])),
                        (''options'', dict_get cfg ''options'' (JObj []))]
                 in case call_enable_secret_engine Secondary self (rstrip path)
                           engine_type engine_config h1 of
                      (ok, h2) \<Rightarrow>
                        sync_engines_loop self rest (if \<not> ok then False else success) h2))
         | _ \<Rightarrow> (Inl (AttributeError (py_type config)), h)))"

definition sync_secret_engines :: "synchronizer \<Rightarrow> trace \<Rightarrow> bool \<times> trace" where
  "sync_secret_engines self h0 =
     (let h1 = logger INFO ''Syncing secret engines'' [] h0 in
      case call_list_secret_engines Primary self h1 of
        (Inl e, h2) \<Rightarrow>
          (False, logger ERROR ''Failed to sync secret engines: {e}'' [JStr (exn_str e)] h2)
      | (Inr primary_engines, h2) \<Rightarrow>
          (case sync_engines_loop self primary_engines True h2 of
             (Inl e, h3) \<Rightarrow>
               (False, logger ERROR ''Failed to sync secret engines: {e}'' [JStr (exn_str e)] h3)
           | (Inr success, h3) \<Rightarrow> (success, h3)))"

fun sync_auth_loop ::
  "synchronizer \<Rightarrow> dict \<Rightarrow> bool \<Rightarrow> trace \<Rightarrow> (exn + bool) \<times> trace" where
  "sync_auth_loop self [] success h = (Inr success, h)"
| "sync_auth_loop self ((path, config) # rest) success h =
     (if should_exclude_path self path then
        sync_auth_loop self rest success
          (logger DEBUG ''Skipping excluded auth method: {path}'' [JStr path] h)
      else if path = ''token/'' then
        sync_auth_loop self rest success h
      else
        (case config of
           JObj cfg \<Rightarrow>
             (let auth_type = dict_get cfg ''type'' JNull in
              if \<not> truthy auth_type then
                sync_auth_loop self rest success
                  (logger WARNING ''No type found for auth method: {path}'' [JStr path] h)
              else
                (let h1 = logger INFO ''Enabling auth method: {path} (type: {auth_type})''
                            [JStr path, auth_type] h;
                     auth_config = JObj
                       [(''description'', dict_get cfg ''description'' (JStr [])),
                        (''config'', dict_get cfg ''config'' (JObj []))]
                 in case call_enable_auth_method Secondary self (rstrip path)
                           auth_type auth_config h1 of
                      (ok, h2) \<Rightarrow>
                        sync_auth_loop self rest (if \<not> ok then False else success) h2))
         | _ \<Rightarrow> (Inl (AttributeError (py_type config)), h)))"

definition sync_auth_methods :: "synchronizer \<Rightarrow> trace \<Rightarrow> bool \<times> trace" where
  "sync_auth_methods self h0 =
     (let h1 = logger INFO ''Syncing auth methods'' [] h0 in
      case call_list_auth_methods Primary self h1 of
        (Inl e, h2) \<Rightarrow>
          (False, logger ERROR ''Failed to sync auth methods: {e}'' [JStr (exn_str e)] h2)
      | (Inr primary_auth, h2) \<Rightarrow>
          (case sync_auth_loop self primary_auth True h2 of
             (Inl e, h3) \<Rightarrow>
               (False, logger ERROR ''Failed to sync auth methods: {e}'' [JStr (exn_str e)] h3)
           | (Inr success, h3) \<Rightarrow> (success, h3)))"

fun sync_policies_loop ::
  "synchronizer \<Rightarrow> string list \<Rightarrow> bool \<Rightarrow> trace \<Rightarrow> (exn + bool) \<times> trace" where
  "sync_policies_loop self [] success h = (Inr success, h)"
| "sync_policies_loop self (policy_name # rest) success h =
     (if policy_name \<in> system_policies then
        sync_policies_loop self rest success h
      else
        (case call_read_policy Primary self policy_name h of
           (Inl e, h1) \<Rightarrow> (Inl e, h1)
         | (Inr None, h1) \<Rightarrow>
             sync_policies_loop self rest success
               (logger WARNING ''Could not read policy: {policy_name}'' [JStr policy_name] h1)
         | (Inr (Some policy_content), h1) \<Rightarrow>
             (let h2 = logger INFO ''Syncing policy: {policy_name}'' [JStr policy_name] h1 in
              case call_write_policy Secondary self policy_name policy_content h2 of
                (ok, h3) \<Rightarrow>
                  sync_policies_loop self rest (if \<not> ok then False else success) h3)))"

definition sync_policies :: "synchronizer \<Rightarrow> trace \<Rightarrow> bool \<times> trace" where
  "sync_policies self h0 =
     (let h1 = logger INFO ''Syncing policies'' [] h0 in
      case call_list_policies Primary self h1 of
        (Inl e, h2) \<Rightarrow>
          (False, logger ERROR ''Failed to sync policies: {e}'' [JStr (exn_str e)] h2)
      | (Inr primary_policies, h2) \<Rightarrow>
          (case sync_policies_loop self primary_policies True h2 of
             (Inl e, h3) \<Rightarrow>
               (False, logger ERROR ''Failed to sync policies: {e}'' [JStr (exn_str e)] h3)
           | (Inr success, h3) \<Rightarrow> (success, h3)))"

section \<open>Secret tree replicator\<close>

text \<open>
  The \<^verbatim>\<open>for key in keys\<close> loop of \<^verbatim>\<open>_sync_secrets_recursive\<close>. \<open>recurse\<close> stands for the
  recursive call \<^verbatim>\<open>self._sync_secrets_recursive(mount_path, sub)\<close>; it yields \<open>None\<close> when
  the recursion does not come back within the depth allowed. \<^verbatim>\<open>if secret_data\<close> holds for a
  dict with at least one item.
\<close>

fun sync_keys_loop ::
  "(string \<Rightarrow> trace \<Rightarrow> (bool \<times> trace) option) \<Rightarrow> synchronizer \<Rightarrow> string \<Rightarrow> string \<Rightarrow>
   string list \<Rightarrow> bool \<Rightarrow> trace \<Rightarrow> ((exn + bool) \<times> trace) option" where
  "sync_keys_loop recurse self full_path sub_path [] success h = Some (Inr success, h)"
| "sync_keys_loop recurse self full_path sub_path (key # rest) success h =
     (let current_path = strip (full_path @ ''/'' @ key) in
      if endswith key ''/'' then
        (case recurse (strip (sub_path @ ''/'' @ key)) h of
           None \<Rightarrow> None
         | Some (ok, h1) \<Rightarrow>
             sync_keys_loop recurse self full_path sub_path rest
               (if \<not> ok then False else success) h1)
      else
        (let h1 = logger DEBUG ''Syncing secret: {current_path}'' [JStr current_path] h in
         case call_read_secret Primary self current_path h1 of
           (Inl e, h2) \<Rightarrow> Some (Inl e, h2)
         | (Inr secret_data, h2) \<Rightarrow>
             (case secret_data of
                Some (item # items) \<Rightarrow>
                  (case call_write_secret Secondary self current_path (item # items) h2 of
                     (False, h3) \<Rightarrow>
                       sync_keys_loop recurse self full_path sub_path rest False
                         (logger ERROR ''Failed to write secret: {current_path}''
                            [JStr current_path] h3)
                   | (True, h3) \<Rightarrow>
                       sync_keys_loop recurse self full_path sub_path rest success h3)
              | _ \<Rightarrow>
                  sync_keys_loop recurse self full_path sub_path rest success
                    (logger WARNING ''Could not read secret: {current_path}''
                       [JStr current_path] h2))))"

text \<open>
  \<^verbatim>\<open>_sync_secrets_recursive\<close>. The first argument bounds the depth of the recursion: the
  shape of the tree is whatever the primary lists, so nothing in the code bounds it.
\<close>

fun sync_secrets_recursive ::
  "nat \<Rightarrow> synchronizer \<Rightarrow> string \<Rightarrow> string \<Rightarrow> trace \<Rightarrow> (bool \<times> trace) option" where
  "sync_secrets_recursive 0 self mount_path sub_path h = None"
| "sync_secrets_recursive (Suc depth) self mount_path sub_path h =
     (let full_path = rstrip (mount_path @ ''/'' @ sub_path) in
      case call_list_secrets Primary self full_path h of
        (Inl e, h1) \<Rightarrow>
          Some (False, logger ERROR ''Failed to sync secrets in path {full_path}: {e}''
                  [JStr full_path, JStr (exn_str e)] h1)
      | (Inr keys, h1) \<Rightarrow>
          (case sync_keys_loop (\<lambda>sub. sync_secrets_recursive depth self mount_path sub)
                  self full_path sub_path keys True h1 of
             None \<Rightarrow> None
           | Some (Inl e, h2) \<Rightarrow>
               Some (False, logger ERROR ''Failed to sync secrets in path {full_path}: {e}''
                       [JStr full_path, JStr (exn_str e)] h2)
           | Some (Inr success, h2) \<Rightarrow> Some (success, h2)))"

fun sync_mounts_loop ::
  "nat \<Rightarrow> synchronizer \<Rightarrow> dict \<Rightarrow> bool \<Rightarrow> trace \<Rightarrow> (bool \<times> trace) option" where
  "sync_mounts_loop depth self [] success h = Some (success, h)"
| "sync_mounts_loop depth self ((mount_path, config) # rest) success h =
     (if should_exclude_path self mount_path then
        sync_mounts_loop depth self rest success h
      else if startswith mount_path ''sys/'' \<or> startswith mount_path ''identity/'' then
        sync_mounts_loop depth self rest success h
      else
        (let h1 = logger INFO ''Syncing secrets from mount: {mount_path}'' [JStr mount_path] h in
         case sync_secrets_recursive depth self (rstrip mount_path) [] h1 of
           None \<Rightarrow> None
         | Some (ok, h2) \<Rightarrow>
             sync_mounts_loop depth self rest (if \<not> ok then False else success) h2))"

definition sync_secrets :: "nat \<Rightarrow> synchronizer \<Rightarrow> trace \<Rightarrow> (bool \<times> trace) option" where
  "sync_secrets depth self h0 =
     (let h1 = logger INFO ''Syncing secrets'' [] h0 in
      case call_list_secret_engines Primary self h1 of
        (Inl e, h2) \<Rightarrow>
          Some (False, logger ERROR ''Failed to sync secrets: {e}'' [JStr (exn_str e)] h2)
      | (Inr secret_engines, h2) \<Rightarrow> sync_mounts_loop depth self secret_engines True h2)"

section \<open>The orchestrator\<close>

text \<open>\<^verbatim>\<open>full_sync\<close>; \<^verbatim>\<open>success &= x\<close> on booleans is conjunction, and evaluates \<^verbatim>\<open>x\<close> always.\<close>

definition full_sync :: "nat \<Rightarrow> synchronizer \<Rightarrow> trace \<Rightarrow> (bool \<times> trace) option" where
  "full_sync depth self h0 =
     (let h1 = logger INFO ''Starting full synchronization'' [] h0 in
      case health_check_both self h1 of
        (False, h2) \<Rightarrow> Some (False, h2)
      | (True, h2) \<Rightarrow>
          (case clear_secondary self h2 of
             (False, h3) \<Rightarrow> Some (False, h3)
           | (True, h3) \<Rightarrow>
               (case sync_secret_engines self h3 of (r1, h4) \<Rightarrow>
               (case sync_auth_methods self h4 of (r2, h5) \<Rightarrow>
               (case sync_policies self h5 of (r3, h6) \<Rightarrow>
               (case sync_secrets depth self h6 of
                  None \<Rightarrow> None
                | Some (r4, h7) \<Rightarrow>
                    (let success = ((((True \<and> r1) \<and> r2) \<and> r3) \<and> r4) in
                     if success then
                       Some (success,
                         logger INFO ''Full synchronization completed successfully'' [] h7)
                     else
                       Some (success,
                         logger ERROR ''Full synchronization completed with errors'' [] h7))))))))"

section \<open>What the configuration replicators are to send\<close>

text \<open>
  The request a listed secret engine or auth method gives rise to, and the listed items
  that get one: those not excluded, not protected, and carrying a type.
\<close>

definition as_dict :: "json \<Rightarrow> dict" where
  "as_dict config = (case config of JObj cfg \<Rightarrow> cfg | _ \<Rightarrow> [])"

definition is_dict :: "json \<Rightarrow> bool" where
  "is_dict config = (case config of JObj cfg \<Rightarrow> True | _ \<Rightarrow> False)"

definition has_type :: "json \<Rightarrow> bool" where
  "has_type config =
     (case config of JObj cfg \<Rightarrow> truthy (dict_get cfg ''type'' JNull) | _ \<Rightarrow> False)"

definition engine_request :: "string \<times> json \<Rightarrow> call" where
  "engine_request item =
     (let cfg = as_dict (snd item) in
      EnableSecretEngine (rstrip (fst item)) (dict_get cfg ''type'' JNull)
        (JObj [(''description'', dict_get cfg ''description'' (JStr [])),
               (''config'', dict_get cfg ''config'' (JObj [])),
               (''options'', dict_get cfg ''options'' (JObj []))]))"

definition auth_request :: "string \<times> json \<Rightarrow> call" where
  "auth_request item =
     (let cfg = as_dict (snd item) in
      EnableAuthMethod (rstrip (fst item)) (dict_get cfg ''type'' JNull)
        (JObj [(''description'', dict_get cfg ''description'' (JStr [])),
               (''config'', dict_get cfg ''config'' (JObj []))]))"

definition engine_eligible :: "synchronizer \<Rightarrow> string \<times> json \<Rightarrow> bool" where
  "engine_eligible self item =
     (\<not> should_exclude_path self (fst item) \<and> \<not> startswith (fst item) ''sys/''
      \<and> \<not> startswith (fst item) ''identity/'' \<and> has_type (snd item))"

definition auth_eligible :: "synchronizer \<Rightarrow> string \<times> json \<Rightarrow> bool" where
  "auth_eligible self item =
     (\<not> should_exclude_path self (fst item) \<and> fst item \<noteq> ''token/'' \<and> has_type (snd item))"

text \<open>Every call in the list returned \<^verbatim>\<open>True\<close>; no call in the list raised.\<close>

definition all_true :: "(call \<times> response) list \<Rightarrow> bool" where
  "all_true cs = list_all (\<lambda>cr. snd cr = RBool True) cs"

fun is_raise :: "response \<Rightarrow> bool" where
  "is_raise (RRaise e) = True"
| "is_raise r = False"

definition none_raised :: "(call \<times> response) list \<Rightarrow> bool" where
  "none_raised cs = list_all (\<lambda>cr. \<not> is_raise (snd cr)) cs"

section \<open>A reference cluster behind a client\<close>

text \<open>
  Modelled from the spec: the cluster that answers a client is not part of the sources.
  This is the collaborator of the spec's section 6 as an in-memory table: mounts and auth
  methods keyed by their slash-terminated path, policies by name, secrets by absolute path.
  A request the cluster rejects (\<open>rejects\<close>: one it refuses, or any request when it is
  unreachable) changes nothing and makes the client method return \<^verbatim>\<open>False\<close>; an accepted
  disable or delete removes the entry, an accepted enable or write stores it.
\<close>

record cluster =
  healthy :: bool
  mounts :: dict
  auths :: dict
  policies :: "(string \<times> string) list"
  secrets :: "(string \<times> dict) list"
  refuses :: "call \<Rightarrow> bool"

definition rejects :: "cluster \<Rightarrow> call \<Rightarrow> bool" where
  "rejects cl c = (\<not> healthy cl \<or> refuses cl c)"

definition remove_key :: "string \<Rightarrow> (string \<times> 'v) list \<Rightarrow> (string \<times> 'v) list" where
  "remove_key k kvs = filter (\<lambda>kv. fst kv \<noteq> k) kvs"

definition store_key :: "string \<Rightarrow> 'v \<Rightarrow> (string \<times> 'v) list \<Rightarrow> (string \<times> 'v) list" where
  "store_key k v kvs = remove_key k kvs @ [(k, v)]"

text \<open>What \<^verbatim>\<open>enable_secret_engine\<close> and \<^verbatim>\<open>enable_auth_method\<close> post: the type, then the payload.\<close>

definition mount_entry :: "json \<Rightarrow> json \<Rightarrow> json" where
  "mount_entry ty cfg = JObj ((''type'', ty) # (case cfg of JObj kv \<Rightarrow> kv | _ \<Rightarrow> []))"

fun cluster_apply :: "call \<Rightarrow> cluster \<Rightarrow> cluster" where
  "cluster_apply (WriteSecret path d) cl = cl\<lparr>secrets := store_key path d (secrets cl)\<rparr>"
| "cluster_apply (EnableAuthMethod path ty cfg) cl =
     cl\<lparr>auths := store_key (path @ ''/'') (mount_entry ty cfg) (auths cl)\<rparr>"
| "cluster_apply (DisableAuthMethod path) cl =
     cl\<lparr>auths := remove_key (path @ ''/'') (auths cl)\<rparr>"
| "cluster_apply (EnableSecretEngine path ty cfg) cl =
     cl\<lparr>mounts := store_key (path @ ''/'') (mount_entry ty cfg) (mounts cl)\<rparr>"
| "cluster_apply (DisableSecretEngine path) cl =
     cl\<lparr>mounts := remove_key (path @ ''/'') (mounts cl)\<rparr>"
| "cluster_apply (WritePolicy name doc) cl =
     cl\<lparr>policies := store_key name doc (policies cl)\<rparr>"
| "cluster_apply (DeletePolicy name) cl = cl\<lparr>policies := remove_key name (policies cl)\<rparr>"
| "cluster_apply HealthCheck cl = cl"
| "cluster_apply (ListSecrets path) cl = cl"
| "cluster_apply (ReadSecret path) cl = cl"
| "cluster_apply ListAuthMethods cl = cl"
| "cluster_apply ListSecretEngines cl = cl"
| "cluster_apply ListPolicies cl = cl"
| "cluster_apply (ReadPolicy name) cl = cl"

definition cluster_step :: "call \<Rightarrow> cluster \<Rightarrow> cluster" where
  "cluster_step c cl = (if rejects cl c then cl else cluster_apply c cl)"

text \<open>The cluster a client talks to, after the calls that the trace directed at it.\<close>

fun replay :: "target \<Rightarrow> trace \<Rightarrow> cluster \<Rightarrow> cluster" where
  "replay t [] cl = cl"
| "replay t (Call t' c r # evs) cl = replay t evs (if t' = t then cluster_step c cl else cl)"
| "replay t (Log lvl msg args # evs) cl = replay t evs cl"

text \<open>
  Listing a path yields the names directly below it: a secret by its name, a folder once,
  with a trailing slash.
\<close>

definition child_name :: "string \<Rightarrow> string" where
  "child_name below =
     (let seg = takeWhile (\<lambda>c. \<not> is_slash c) below in
      if length seg < length below then seg @ ''/'' else seg)"

definition children :: "string \<Rightarrow> (string \<times> dict) list \<Rightarrow> string list" where
  "children path kv =
     remdups (concat (map (\<lambda>(q, d).
        if startswith q (path @ ''/'') \<and> length path + 1 < length q
        then [child_name (drop (length path + 1) q)] else []) kv))"

definition cluster_client :: "target \<Rightarrow> cluster \<Rightarrow> client" where
  "cluster_client t cl0 =
     \<lparr>health_check = (\<lambda>h. healthy (replay t h cl0)),
      list_secrets = (\<lambda>path h.
         (let cl = replay t h cl0 in
          Inr (if rejects cl (ListSecrets path) then [] else children path (secrets cl)))),
      read_secret = (\<lambda>path h.
         (let cl = replay t h cl0 in
          Inr (if rejects cl (ReadSecret path) then None else map_of (secrets cl) path))),
      write_secret = (\<lambda>path d h. \<not> rejects (replay t h cl0) (WriteSecret path d)),
      list_auth_methods = (\<lambda>h.
         (let cl = replay t h cl0 in
          Inr (if rejects cl ListAuthMethods then [] else auths cl))),
      enable_auth_method = (\<lambda>path ty cfg h.
         \<not> rejects (replay t h cl0) (EnableAuthMethod path ty cfg)),
      disable_auth_method = (\<lambda>path h. \<not> rejects (replay t h cl0) (DisableAuthMethod path)),
      list_secret_engines = (\<lambda>h.
         (let cl = replay t h cl0 in
          Inr (if rejects cl ListSecretEngines then [] else mounts cl))),
      enable_secret_engine = (\<lambda>path ty cfg h.
         \<not> rejects (replay t h cl0) (EnableSecretEngine path ty cfg)),
      disable_secret_engine = (\<lambda>path h.
         \<not> rejects (replay t h cl0) (DisableSecretEngine path)),
      list_policies = (\<lambda>h.
         (let cl = replay t h cl0 in
          Inr (if rejects cl ListPolicies then [] else map fst (policies cl)))),
      read_policy = (\<lambda>name h.
         (let cl = replay t h cl0 in
          Inr (if rejects cl (ReadPolicy name) then None else map_of (policies cl) name))),
      write_policy = (\<lambda>name doc h. \<not> rejects (replay t h cl0) (WritePolicy name doc)),
      delete_policy = (\<lambda>name h. \<not> rejects (replay t h cl0) (DeletePolicy name))\<rparr>"

definition cluster_sync :: "cluster \<Rightarrow> cluster \<Rightarrow> string list \<Rightarrow> synchronizer" where
  "cluster_sync p0 s0 excl =
     init (cluster_client Primary p0) (cluster_client Secondary s0) (Some excl)"

text \<open>Two small clusters used as concrete inputs.\<close>

definition kv_mount :: json where
  "kv_mount = JObj [(''type'', JStr ''kv''), (''description'', JStr ''app secrets'')]"

definition demo_primary :: cluster where
  "demo_primary =
     \<lparr>healthy = True,
      mounts = [(''secret/'', kv_mount), (''sys/'', JObj [(''type'', JStr ''system'')])],
      auths = [(''token/'', JObj [(''type'', JStr ''token'')])],
      policies = [(''root'', []), (''ops'', ''path rules'')],
      secrets = [(''secret/a'', [(''v'', JNum 1)]), (''secret/b/c'', [(''v'', JNum 2)])],
      refuses = (\<lambda>c. False)\<rparr>"

definition demo_secondary :: cluster where
  "demo_secondary =
     \<lparr>healthy = True,
      mounts = [(''old/'', kv_mount), (''sys/'', JObj [(''type'', JStr ''system'')])],
      auths = [(''token/'', JObj [(''type'', JStr ''token'')])],
      policies = [(''default'', []), (''custom1'', ''old rules'')],
      secrets = [],
      refuses = (\<lambda>c. False)\<rparr>"

section \<open>Reading a trace\<close>

text \<open>The client methods that only ask, and those that change the cluster they reach.\<close>

fun readonly :: "call \<Rightarrow> bool" where
  "readonly HealthCheck = True"
| "readonly (ListSecrets path) = True"
| "readonly (ReadSecret path) = True"
| "readonly ListAuthMethods = True"
| "readonly ListSecretEngines = True"
| "readonly ListPolicies = True"
| "readonly (ReadPolicy name) = True"
| "readonly (WriteSecret path d) = False"
| "readonly (EnableAuthMethod path ty cfg) = False"
| "readonly (DisableAuthMethod path) = False"
| "readonly (EnableSecretEngine path ty cfg) = False"
| "readonly (DisableSecretEngine path) = False"
| "readonly (WritePolicy name doc) = False"
| "readonly (DeletePolicy name) = False"

fun is_apply :: "call \<Rightarrow> bool" where
  "is_apply (WriteSecret path d) = True"
| "is_apply (EnableAuthMethod path ty cfg) = True"
| "is_apply (EnableSecretEngine path ty cfg) = True"
| "is_apply (WritePolicy name doc) = True"
| "is_apply c = False"

fun is_erase :: "call \<Rightarrow> bool" where
  "is_erase (DisableAuthMethod path) = True"
| "is_erase (DisableSecretEngine path) = True"
| "is_erase (DeletePolicy name) = True"
| "is_erase c = False"

fun mutation :: "event \<Rightarrow> bool" where
  "mutation (Call t c r) = (\<not> readonly c)"
| "mutation (Log lvl msg args) = False"

text \<open>The calls a trace directs at one client, in order, each with what it returned.\<close>

fun calls_to :: "target \<Rightarrow> trace \<Rightarrow> (call \<times> response) list" where
  "calls_to t [] = []"
| "calls_to t (Call t' c r # evs) = (if t' = t then (c, r) # calls_to t evs else calls_to t evs)"
| "calls_to t (Log lvl msg args # evs) = calls_to t evs"

text \<open>\<open>h'\<close> continues \<open>h\<close> by events that all satisfy \<open>Q\<close>.\<close>

definition extends :: "(event \<Rightarrow> bool) \<Rightarrow> trace \<Rightarrow> trace \<Rightarrow> bool" where
  "extends Q h h' = (take (length h) h' = h \<and> list_all Q (drop (length h) h'))"

text \<open>The first log line of each replication phase.\<close>

definition phase_start :: "string list" where
  "phase_start =
     [''Syncing secret engines'', ''Syncing auth methods'', ''Syncing policies'',
      ''Syncing secrets'']"

text \<open>What a health check, a reset and a replication phase may leave in the trace.\<close>

fun health_event :: "event \<Rightarrow> bool" where
  "health_event (Call t c r) = (c = HealthCheck)"
| "health_event (Log lvl msg args) = (msg \<notin> set phase_start)"

fun reset_event :: "event \<Rightarrow> bool" where
  "reset_event (Call t c r) =
     (t = Secondary \<and> (c = ListSecretEngines \<or> c = ListAuthMethods \<or> c = ListPolicies \<or> is_erase c))"
| "reset_event (Log lvl msg args) = (msg \<notin> set phase_start)"

fun replication_event :: "event \<Rightarrow> bool" where
  "replication_event (Call t c r) =
     (case t of Primary \<Rightarrow> readonly c \<and> c \<noteq> HealthCheck | Secondary \<Rightarrow> is_apply c)"
| "replication_event (Log lvl msg args) = True"

text \<open>An event that only a replication phase produces.\<close>

fun phase_event :: "event \<Rightarrow> bool" where
  "phase_event (Call t c r) = ((t = Primary \<and> c \<noteq> HealthCheck) \<or> is_apply c)"
| "phase_event (Log lvl msg args) = (msg \<in> set phase_start)"

text \<open>What a pass may do to whom: the primary is only asked.\<close>

fun frame_event :: "event \<Rightarrow> bool" where
  "frame_event (Call Primary c r) = readonly c"
| "frame_event (Call Secondary c r) = True"
| "frame_event (Log lvl msg args) = True"

text \<open>A secondary whose auth listing comes back malformed, so that the reset fails halfway.\<close>

definition malformed_secondary :: client where
  "malformed_secondary =
     (cluster_client Secondary demo_secondary)
       \<lparr>list_auth_methods := (\<lambda>h. Inl (Unexpected ''malformed reply''))\<rparr>"

definition unreachable :: "cluster \<Rightarrow> cluster" where
  "unreachable cl = cl\<lparr>healthy := False\<rparr>"

text \<open>
  Two clients with fixed replies, as a test would script them: a primary with one secret
  engine holding \<^verbatim>\<open>a\<close> and \<^verbatim>\<open>b/c\<close>, and a secondary on which no secret engine can be enabled
  and the secret \<^verbatim>\<open>secret/a\<close> cannot be written.
\<close>

definition scripted_primary :: client where
  "scripted_primary =
     \<lparr>health_check = (\<lambda>h. True),
      list_secrets = (\<lambda>path h. Inr
         (if path = ''secret'' then [''a'', ''b/'']
          else if path = ''secret/b'' then [''c''] else [])),
      read_secret = (\<lambda>path h. Inr
         (if path = ''secret/a'' then Some [(''v'', JNum 1)]
          else if path = ''secret/b/c'' then Some [(''v'', JNum 2)]
          else if path = ''secret/empty'' then Some [] else None)),
      write_secret = (\<lambda>path d h. False),
      list_auth_methods = (\<lambda>h. Inr [(''token/'', JObj [(''type'', JStr ''token'')])]),
      enable_auth_method = (\<lambda>path ty cfg h. False),
      disable_auth_method = (\<lambda>path h. False),
      list_secret_engines = (\<lambda>h. Inr
         [(''secret/'', JObj [(''type'', JStr ''kv'')]),
          (''sys/'', JObj [(''type'', JStr ''system'')])]),
      enable_secret_engine = (\<lambda>path ty cfg h. False),
      disable_secret_engine = (\<lambda>path h. False),
      list_policies = (\<lambda>h. Inr [''root'', ''ops'']),
      read_policy = (\<lambda>name h. Inr (if name = ''ops'' then Some ''path rules'' else None)),
      write_policy = (\<lambda>name doc h. False),
      delete_policy = (\<lambda>name h. False)\<rparr>"

definition scripted_secondary :: client where
  "scripted_secondary =
     \<lparr>health_check = (\<lambda>h. True),
      list_secrets = (\<lambda>path h. Inr []),
      read_secret = (\<lambda>path h. Inr None),
      write_secret = (\<lambda>path d h. path \<noteq> ''secret/a''),
      list_auth_methods = (\<lambda>h. Inr [(''token/'', JObj [(''type'', JStr ''token'')])]),
      enable_auth_method = (\<lambda>path ty cfg h. True),
      disable_auth_method = (\<lambda>path h. True),
      list_secret_engines = (\<lambda>h. Inr [(''old/'', JObj [(''type'', JStr ''kv'')])]),
      enable_secret_engine = (\<lambda>path ty cfg h. False),
      disable_secret_engine = (\<lambda>path h. True),
      list_policies = (\<lambda>h. Inr [''default'', ''custom1'']),
      read_policy = (\<lambda>name h. Inr None),
      write_policy = (\<lambda>name doc h. True),
      delete_policy = (\<lambda>name h. True)\<rparr>"

definition scripted_sync :: "string list \<Rightarrow> synchronizer" where
  "scripted_sync excl = init scripted_primary scripted_secondary (Some excl)"

text \<open>A primary that lists an auth method mounted under \<^verbatim>\<open>sys/\<close>.\<close>

definition sys_auth_primary :: client where
  "sys_auth_primary =
     scripted_primary
       \<lparr>list_auth_methods := (\<lambda>h. Inr [(''sys/ldap/'', JObj [(''type'', JStr ''ldap'')])])\<rparr>"

text \<open>What one pass over the scripted clients leaves in the trace, phase by phase.\<close>

definition run_health :: trace where
  "run_health =
     [Log INFO ''Starting full synchronization'' [],
      Log INFO ''Performing health checks'' [],
      Call Primary HealthCheck (RBool True),
      Call Secondary HealthCheck (RBool True),
      Log INFO ''Health checks passed'' []]"

definition run_reset :: trace where
  "run_reset =
     [Log INFO ''Clearing secondary cluster data'' [],
      Call Secondary ListSecretEngines (RDict [(''old/'', JObj [(''type'', JStr ''kv'')])]),
      Log INFO ''Disabling secret engine: {path}'' [JStr ''old/''],
      Call Secondary (DisableSecretEngine ''old'') (RBool True),
      Call Secondary ListAuthMethods (RDict [(''token/'', JObj [(''type'', JStr ''token'')])]),
      Call Secondary ListPolicies (RNames [''default'', ''custom1'']),
      Log INFO ''Deleting policy: {policy}'' [JStr ''custom1''],
      Call Secondary (DeletePolicy ''custom1'') (RBool True),
      Log INFO ''Secondary cluster cleared successfully'' []]"

definition run_engines :: trace where
  "run_engines =
     [Log INFO ''Syncing secret engines'' [],
      Call Primary ListSecretEngines
        (RDict [(''secret/'', JObj [(''type'', JStr ''kv'')]),
                (''sys/'', JObj [(''type'', JStr ''system'')])]),
      Log INFO ''Enabling secret engine: {path} (type: {engine_type})''
        [JStr ''secret/'', JStr ''kv''],
      Call Secondary
        (EnableSecretEngine ''secret'' (JStr ''kv'')
          (JObj [(''description'', JStr []), (''config'', JObj []), (''options'', JObj [])]))
        (RBool False),
      Log DEBUG ''Skipping excluded secret engine: {path}'' [JStr ''sys/'']]"

definition run_auth :: trace where
  "run_auth =
     [Log INFO ''Syncing auth methods'' [],
      Call Primary ListAuthMethods (RDict [(''token/'', JObj [(''type'', JStr ''token'')])])]"

definition run_policies :: trace where
  "run_policies =
     [Log INFO ''Syncing policies'' [],
      Call Primary ListPolicies (RNames [''root'', ''ops'']),
      Call Primary (ReadPolicy ''ops'') (RPolicy (Some ''path rules'')),
      Log INFO ''Syncing policy: {policy_name}'' [JStr ''ops''],
      Call Secondary (WritePolicy ''ops'' ''path rules'') (RBool True)]"

definition run_secrets :: trace where
  "run_secrets =
     [Log INFO ''Syncing secrets'' [],
      Call Primary ListSecretEngines
        (RDict [(''secret/'', JObj [(''type'', JStr ''kv'')]),
                (''sys/'', JObj [(''type'', JStr ''system'')])]),
      Log INFO ''Syncing secrets from mount: {mount_path}'' [JStr ''secret/''],
      Call Primary (ListSecrets ''secret'') (RNames [''a'', ''b/'']),
      Log DEBUG ''Syncing secret: {current_path}'' [JStr ''secret/a''],
      Call Primary (ReadSecret ''secret/a'') (RSecret (Some [(''v'', JNum 1)])),
      Call Secondary (WriteSecret ''secret/a'' [(''v'', JNum 1)]) (RBool False),
      Log ERROR ''Failed to write secret: {current_path}'' [JStr ''secret/a''],
      Call Primary (ListSecrets ''secret/b'') (RNames [''c'']),
      Log DEBUG ''Syncing secret: {current_path}'' [JStr ''secret/b/c''],
      Call Primary (ReadSecret ''secret/b/c'') (RSecret (Some [(''v'', JNum 2)])),
      Call Secondary (WriteSecret ''secret/b/c'' [(''v'', JNum 2)]) (RBool True)]"

text \<open>
  A cluster from which a further reset can take nothing: whatever a reset would still list
  and ask to disable or delete is either refused or names an entry that is not there.
\<close>

definition cleared :: "cluster \<Rightarrow> bool" where
  "cleared cl =
     ((\<not> rejects cl ListSecretEngines \<longrightarrow>
         (\<forall>p \<in> fst ` set (mounts cl).
            \<not> startswith p ''sys/'' \<and> \<not> startswith p ''identity/''
            \<and> \<not> rejects cl (DisableSecretEngine (rstrip p))
            \<longrightarrow> rstrip p @ ''/'' \<notin> fst ` set (mounts cl)))
      \<and> (\<not> rejects cl ListAuthMethods \<longrightarrow>
         (\<forall>p \<in> fst ` set (auths cl).
            p \<noteq> ''token/'' \<and> \<not> startswith p ''sys/''
            \<and> \<not> rejects cl (DisableAuthMethod (rstrip p))
            \<longrightarrow> rstrip p @ ''/'' \<notin> fst ` set (auths cl)))
      \<and> (\<not> rejects cl ListPolicies \<longrightarrow>
         (\<forall>n \<in> fst ` set (policies cl).
            n \<notin> system_policies \<longrightarrow> rejects cl (DeletePolicy n))))"

text \<open>
  A secondary that refuses to delete the policy \<^verbatim>\<open>custom1\<close>, and what two resets in a row
  leave in the trace when they run against it.
\<close>

definition stubborn_secondary :: cluster where
  "stubborn_secondary = demo_secondary\<lparr>refuses := (\<lambda>c. c = DeletePolicy ''custom1'')\<rparr>"

definition reset_once :: trace where
  "reset_once =
     [Log INFO ''Clearing secondary cluster data'' [],
      Call Secondary ListSecretEngines
        (RDict [(''old/'', kv_mount), (''sys/'', JObj [(''type'', JStr ''system'')])]),
      Log INFO ''Disabling secret engine: {path}'' [JStr ''old/''],
      Call Secondary (DisableSecretEngine ''old'') (RBool True),
      Call Secondary ListAuthMethods (RDict [(''token/'', JObj [(''type'', JStr ''token'')])]),
      Call Secondary ListPolicies (RNames [''default'', ''custom1'']),
      Log INFO ''Deleting policy: {policy}'' [JStr ''custom1''],
      Call Secondary (DeletePolicy ''custom1'') (RBool False),
      Log INFO ''Secondary cluster cleared successfully'' []]"

definition reset_again :: trace where
  "reset_again =
     [Log INFO ''Clearing secondary cluster data'' [],
      Call Secondary ListSecretEngines (RDict [(''sys/'', JObj [(''type'', JStr ''system'')])]),
      Call Secondary ListAuthMethods (RDict [(''token/'', JObj [(''type'', JStr ''token'')])]),
      Call Secondary ListPolicies (RNames [''default'', ''custom1'']),
      Log INFO ''Deleting policy: {policy}'' [JStr ''custom1''],
      Call Secondary (DeletePolicy ''custom1'') (RBool False),
      Log INFO ''Secondary cluster cleared successfully'' []]"

section \<open>Properties\<close>

lemma startswith_prefix: "startswith s pre = prefix pre s"
  by (auto simp: startswith_def prefix_def) (metis append_take_drop_id)

lemma should_exclude_loop_iff:
  "should_exclude_loop E path = (\<exists>e \<in> set E. startswith path e)"
  by (induction E) auto

text \<open>
  C1. \<^verbatim>\<open>should_exclude_path(P)\<close> over a synchronizer holding the exclusion set E is true
  exactly when some member of E is a prefix of P, character by character, with no
  normalisation of either string; with an empty E (also the default of the constructor)
  it is false for every P.
\<close>

theorem should_exclude_path_iff_prefix:
  "(should_exclude_path (init p s (Some E)) P = (\<exists>e \<in> set E. \<exists>rest. P = e @ rest))
   \<and> should_exclude_path (init p s (Some [])) P = False
   \<and> should_exclude_path (init p s None) P = False"
  by (auto simp: should_exclude_path_def init_def should_exclude_loop_iff
      startswith_prefix prefix_def)

theorem should_exclude_path_iff_prefix_witness:
  "should_exclude_path (cluster_sync demo_primary demo_secondary [''sys/'', ''identity/''])
     ''identity/entity''
   \<and> \<not> should_exclude_path (cluster_sync demo_primary demo_secondary [''sys/'', ''identity/''])
     ''Sys/auth''
   \<and> \<not> should_exclude_path (cluster_sync demo_primary demo_secondary [''sys/'', ''identity/''])
     ''secret/sys/''
   \<and> \<not> should_exclude_path (cluster_sync demo_primary demo_secondary []) ''sys/auth''"
  using should_exclude_path_iff_prefix
          [of "cluster_client Primary demo_primary" "cluster_client Secondary demo_secondary"
              "[''sys/'', ''identity/'']" "''identity/entity''"]
  by (simp add: cluster_sync_def should_exclude_path_def init_def startswith_def)

lemma extends_iff: "extends Q h h' = (\<exists>evs. h' = h @ evs \<and> list_all Q evs)"
  unfolding extends_def
  by (metis append_eq_conv_conj append_take_drop_id)

lemma extends_refl: "extends Q h h"
  by (simp add: extends_iff)

lemma extends_trans: "extends Q h h1 \<Longrightarrow> extends Q h1 h2 \<Longrightarrow> extends Q h h2"
  by (auto simp: extends_iff)

lemma extends_mono: "extends Q h h' \<Longrightarrow> (\<And>e. Q e \<Longrightarrow> Q' e) \<Longrightarrow> extends Q' h h'"
  by (auto simp: extends_iff list_all_iff)

lemmas call_defs = call_health_check_def call_list_secrets_def call_read_secret_def
  call_write_secret_def call_list_auth_methods_def call_enable_auth_method_def
  call_disable_auth_method_def call_list_secret_engines_def call_enable_secret_engine_def
  call_disable_secret_engine_def call_list_policies_def call_read_policy_def
  call_write_policy_def call_delete_policy_def

lemmas trace_defs = call_defs Let_def logger_def returned_def

lemma health_check_both_extends:
  "health_check_both self h = (res, h') \<Longrightarrow> extends health_event h h'"
  by (auto simp: health_check_both_def trace_defs extends_iff phase_start_def
      split: bool.splits)

lemma extends_logger:
  "extends Q h h1 \<Longrightarrow> Q (Log lvl msg args) \<Longrightarrow> extends Q h (logger lvl msg args h1)"
  by (auto simp: extends_iff logger_def)

lemma extends_returned:
  "extends Q h h1 \<Longrightarrow> Q (Call t c r) \<Longrightarrow> extends Q h (returned t c r h1)"
  by (auto simp: extends_iff returned_def)

lemmas extends_intros = extends_refl extends_logger extends_returned

lemma disable_engines_loop_extends:
  "extends reset_event h h1 \<Longrightarrow> extends reset_event h (disable_engines_loop self items h1)"
proof (induction items arbitrary: h1)
  case Nil
  then show ?case by simp
next
  case (Cons a items)
  show ?case using Cons.prems
    by (cases a) (auto simp: call_defs Let_def phase_start_def intro!: Cons.IH extends_intros)
qed

lemma disable_auth_loop_extends:
  "extends reset_event h h1 \<Longrightarrow> extends reset_event h (disable_auth_loop self items h1)"
proof (induction items arbitrary: h1)
  case Nil
  then show ?case by simp
next
  case (Cons a items)
  show ?case using Cons.prems
    by (cases a) (auto simp: call_defs Let_def phase_start_def intro!: Cons.IH extends_intros)
qed

lemma delete_policies_loop_extends:
  "extends reset_event h h1 \<Longrightarrow> extends reset_event h (delete_policies_loop self items h1)"
proof (induction items arbitrary: h1)
  case Nil
  then show ?case by simp
next
  case (Cons a items)
  show ?case using Cons.prems
    by (auto simp: call_defs Let_def phase_start_def intro!: Cons.IH extends_intros)
qed

lemma clear_secondary_extends_snd:
  "extends reset_event h h1 \<Longrightarrow> extends reset_event h (snd (clear_secondary self h1))"
  unfolding clear_secondary_def clear_failed_def Let_def call_defs
  by (auto simp: phase_start_def split: sum.splits
      intro!: extends_intros disable_engines_loop_extends disable_auth_loop_extends
        delete_policies_loop_extends)

lemma clear_secondary_extends:
  "clear_secondary self h = (res, h') \<Longrightarrow> extends reset_event h h'"
  using clear_secondary_extends_snd[OF extends_refl, of h self] by simp

lemma sync_engines_loop_extends:
  "sync_engines_loop self items success h = (res, h') \<Longrightarrow> extends replication_event h h'"
proof (induction items arbitrary: h success)
  case Nil
  then show ?case by (auto simp: extends_refl)
next
  case (Cons a items)
  show ?case using Cons.prems
    by (cases a) (auto simp: trace_defs extends_iff split: json.splits if_splits
        dest!: Cons.IH)
qed

lemma sync_auth_loop_extends:
  "sync_auth_loop self items success h = (res, h') \<Longrightarrow> extends replication_event h h'"
proof (induction items arbitrary: h success)
  case Nil
  then show ?case by (auto simp: extends_refl)
next
  case (Cons a items)
  show ?case using Cons.prems
    by (cases a) (auto simp: trace_defs extends_iff split: json.splits if_splits
        dest!: Cons.IH)
qed

lemma sync_policies_loop_extends:
  "sync_policies_loop self items success h = (res, h') \<Longrightarrow> extends replication_event h h'"
proof (induction items arbitrary: h success)
  case Nil
  then show ?case by (auto simp: extends_refl)
next
  case (Cons a items)
  show ?case using Cons.prems
    by (auto simp: trace_defs extends_iff split: sum.splits option.splits if_splits
        dest!: Cons.IH)
qed

lemma sync_secret_engines_extends:
  "sync_secret_engines self h = (res, h') \<Longrightarrow> extends replication_event h h'"
  unfolding sync_secret_engines_def
  by (auto simp: trace_defs extends_iff split: sum.splits prod.splits
      dest!: sync_engines_loop_extends)

lemma sync_auth_methods_extends:
  "sync_auth_methods self h = (res, h') \<Longrightarrow> extends replication_event h h'"
  unfolding sync_auth_methods_def
  by (auto simp: trace_defs extends_iff split: sum.splits prod.splits
      dest!: sync_auth_loop_extends)

lemma sync_policies_extends:
  "sync_policies self h = (res, h') \<Longrightarrow> extends replication_event h h'"
  unfolding sync_policies_def
  by (auto simp: trace_defs extends_iff split: sum.splits prod.splits
      dest!: sync_policies_loop_extends)

lemma sync_keys_loop_extends:
  assumes rec: "\<And>sub k r k'. recurse sub k = Some (r, k') \<Longrightarrow> extends replication_event k k'"
  shows "sync_keys_loop recurse self full_path sub_path keys success h = Some (res, h') \<Longrightarrow>
         extends replication_event h h'"
proof (induction keys arbitrary: h success)
  case Nil
  then show ?case by (auto simp: extends_refl)
next
  case (Cons key keys)
  show ?case using Cons.prems
    by (auto simp: trace_defs extends_iff
        split: sum.splits option.splits list.splits bool.splits if_splits
        dest!: Cons.IH rec)
qed

lemma sync_secrets_recursive_extends:
  "sync_secrets_recursive depth self mount_path sub_path h = Some (res, h') \<Longrightarrow>
   extends replication_event h h'"
proof (induction depth arbitrary: sub_path h res h')
  case 0
  then show ?case by simp
next
  case (Suc depth)
  have keys: "extends replication_event k k'"
    if "sync_keys_loop (sync_secrets_recursive depth self mount_path) self fp sp ks s k
        = Some (r, k')" for fp sp ks s k r k'
    using that by (rule sync_keys_loop_extends[rotated]) (rule Suc.IH)
  from Suc.prems show ?case
    by (auto simp: trace_defs extends_iff split: sum.splits option.splits prod.splits
        dest!: keys)
qed

lemma sync_mounts_loop_extends:
  "sync_mounts_loop depth self items success h = Some (res, h') \<Longrightarrow>
   extends replication_event h h'"
proof (induction items arbitrary: h success)
  case Nil
  then show ?case by (auto simp: extends_refl)
next
  case (Cons a items)
  show ?case using Cons.prems
    by (cases a) (auto simp: trace_defs extends_iff split: option.splits if_splits
        dest!: Cons.IH sync_secrets_recursive_extends)
qed

lemma sync_secrets_extends:
  "sync_secrets depth self h = Some (res, h') \<Longrightarrow> extends replication_event h h'"
  unfolding sync_secrets_def
  by (auto simp: trace_defs extends_iff split: sum.splits
      dest!: sync_mounts_loop_extends)

lemma health_check_both_result:
  "fst (health_check_both self h) =
     (health_check (primary self) (h @ [Log INFO ''Performing health checks'' []])
      \<and> health_check (secondary self)
          (h @ [Log INFO ''Performing health checks'' [], Call Primary HealthCheck (RBool True)]))"
  by (auto simp: health_check_both_def trace_defs client_of_def split: bool.splits)

text \<open>
  C3. A health check that fails on the primary, or on the secondary once the primary has
  passed, makes \<^verbatim>\<open>full_sync\<close> return \<^verbatim>\<open>False\<close> with nothing in the trace but log lines and
  health checks: no enable, disable, write or delete reaches either cluster. A reset that
  fails makes it return \<^verbatim>\<open>False\<close> as well, and the trace ends with the reset: none of the
  four replication phases has logged its start, asked the primary or applied anything.
\<close>

theorem full_sync_short_circuits:
  assumes "health_check_both self (logger INFO ''Starting full synchronization'' [] h) = (ok, h2)"
  shows "(ok = (health_check (primary self)
                 (h @ [Log INFO ''Starting full synchronization'' [],
                       Log INFO ''Performing health checks'' []])
               \<and> health_check (secondary self)
                 (h @ [Log INFO ''Starting full synchronization'' [],
                       Log INFO ''Performing health checks'' [],
                       Call Primary HealthCheck (RBool True)])))
       \<and> (\<not> ok \<longrightarrow> full_sync depth self h = Some (False, h2)
                  \<and> extends (\<lambda>e. \<not> mutation e) h h2)
       \<and> (ok \<and> clear_secondary self h2 = (False, h3) \<longrightarrow>
             full_sync depth self h = Some (False, h3)
             \<and> extends (\<lambda>e. \<not> phase_event e) h h3)"
proof (intro conjI impI)
  show "ok = (health_check (primary self)
                 (h @ [Log INFO ''Starting full synchronization'' [],
                       Log INFO ''Performing health checks'' []])
               \<and> health_check (secondary self)
                 (h @ [Log INFO ''Starting full synchronization'' [],
                       Log INFO ''Performing health checks'' [],
                       Call Primary HealthCheck (RBool True)]))"
    using health_check_both_result[of self "logger INFO ''Starting full synchronization'' [] h"]
      assms by (simp add: logger_def)
  have start: "extends health_event h (logger INFO ''Starting full synchronization'' [] h)"
    by (simp add: extends_iff logger_def phase_start_def)
  have hc: "extends health_event h h2"
    using start health_check_both_extends[OF assms] by (rule extends_trans)
  {
    assume "\<not> ok"
    with assms show "full_sync depth self h = Some (False, h2)"
      by (simp add: full_sync_def Let_def)
    show "extends (\<lambda>e. \<not> mutation e) h h2"
      using hc
    proof (rule extends_mono)
      fix e assume "health_event e" then show "\<not> mutation e" by (cases e) auto
    qed
  }
  {
    assume a: "ok \<and> clear_secondary self h2 = (False, h3)"
    with assms show "full_sync depth self h = Some (False, h3)"
      by (simp add: full_sync_def Let_def)
    have "extends (\<lambda>e. health_event e \<or> reset_event e) h h2"
      using hc by (rule extends_mono) simp
    moreover have "extends (\<lambda>e. health_event e \<or> reset_event e) h2 h3"
      using clear_secondary_extends[of self h2 False h3] a by (auto intro: extends_mono)
    ultimately have "extends (\<lambda>e. health_event e \<or> reset_event e) h h3"
      by (rule extends_trans)
    then show "extends (\<lambda>e. \<not> phase_event e) h h3"
    proof (rule extends_mono)
      fix e assume "health_event e \<or> reset_event e"
      then show "\<not> phase_event e"
        by (cases e) (auto elim: is_erase.elims)
    qed
  }
qed


lemmas model_defs = cluster_sync_def init_def cluster_client_def client_of_def rejects_def
  demo_primary_def demo_secondary_def unreachable_def malformed_secondary_def kv_mount_def
  cluster_step_def remove_key_def store_key_def startswith_def rstrip_def is_slash_def
  system_policies_def should_exclude_path_def

theorem full_sync_short_circuits_witness:
  "full_sync 0 (cluster_sync (unreachable demo_primary) demo_secondary [''sys/'', ''identity/'']) []
     = Some (False,
         [Log INFO ''Starting full synchronization'' [],
          Log INFO ''Performing health checks'' [],
          Call Primary HealthCheck (RBool False),
          Log ERROR ''Primary OpenBao instance is not healthy'' []])
   \<and> full_sync 0 (init (cluster_client Primary demo_primary) malformed_secondary None) []
     = Some (False,
         [Log INFO ''Starting full synchronization'' [],
          Log INFO ''Performing health checks'' [],
          Call Primary HealthCheck (RBool True),
          Call Secondary HealthCheck (RBool True),
          Log INFO ''Health checks passed'' [],
          Log INFO ''Clearing secondary cluster data'' [],
          Call Secondary ListSecretEngines (RDict (mounts demo_secondary)),
          Log INFO ''Disabling secret engine: {path}'' [JStr ''old/''],
          Call Secondary (DisableSecretEngine ''old'') (RBool True),
          Call Secondary ListAuthMethods (RRaise (Unexpected ''malformed reply'')),
          Log ERROR ''Failed to clear secondary cluster: {e}'' [JStr ''malformed reply'']])"
proof -
  let ?s1 = "cluster_sync (unreachable demo_primary) demo_secondary [''sys/'', ''identity/'']"
  let ?s2 = "init (cluster_client Primary demo_primary) malformed_secondary None"
  have a1: "health_check_both ?s1 (logger INFO ''Starting full synchronization'' [] [])
      = (False, [Log INFO ''Starting full synchronization'' [],
          Log INFO ''Performing health checks'' [],
          Call Primary HealthCheck (RBool False),
          Log ERROR ''Primary OpenBao instance is not healthy'' []])"
    by (simp add: health_check_both_def trace_defs model_defs)
  have a2: "health_check_both ?s2 (logger INFO ''Starting full synchronization'' [] [])
      = (True, [Log INFO ''Starting full synchronization'' [],
          Log INFO ''Performing health checks'' [],
          Call Primary HealthCheck (RBool True),
          Call Secondary HealthCheck (RBool True),
          Log INFO ''Health checks passed'' []])"
    by (simp add: health_check_both_def trace_defs model_defs)
  have a3: "clear_secondary ?s2 [Log INFO ''Starting full synchronization'' [],
          Log INFO ''Performing health checks'' [],
          Call Primary HealthCheck (RBool True),
          Call Secondary HealthCheck (RBool True),
          Log INFO ''Health checks passed'' []]
      = (False, [Log INFO ''Starting full synchronization'' [],
          Log INFO ''Performing health checks'' [],
          Call Primary HealthCheck (RBool True),
          Call Secondary HealthCheck (RBool True),
          Log INFO ''Health checks passed'' [],
          Log INFO ''Clearing secondary cluster data'' [],
          Call Secondary ListSecretEngines (RDict (mounts demo_secondary)),
          Log INFO ''Disabling secret engine: {path}'' [JStr ''old/''],
          Call Secondary (DisableSecretEngine ''old'') (RBool True),
          Call Secondary ListAuthMethods (RRaise (Unexpected ''malformed reply'')),
          Log ERROR ''Failed to clear secondary cluster: {e}'' [JStr ''malformed reply'']])"
    by (simp add: clear_secondary_def clear_failed_def trace_defs model_defs)
  from full_sync_short_circuits[OF a1, where depth = 0]
    full_sync_short_circuits[OF a2, where depth = 0] a3
  show ?thesis by simp
qed

lemma sync_secret_engines_head:
  "sync_secret_engines self h = (r, h') \<Longrightarrow>
   \<exists>x evs. h' = h @ Log INFO ''Syncing secret engines'' [] # Call Primary ListSecretEngines x # evs"
  unfolding sync_secret_engines_def
  by (auto simp: trace_defs extends_iff split: sum.splits prod.splits
      dest!: sync_engines_loop_extends)

lemma sync_auth_methods_head:
  "sync_auth_methods self h = (r, h') \<Longrightarrow>
   \<exists>x evs. h' = h @ Log INFO ''Syncing auth methods'' [] # Call Primary ListAuthMethods x # evs"
  unfolding sync_auth_methods_def
  by (auto simp: trace_defs extends_iff split: sum.splits prod.splits
      dest!: sync_auth_loop_extends)

lemma sync_policies_head:
  "sync_policies self h = (r, h') \<Longrightarrow>
   \<exists>x evs. h' = h @ Log INFO ''Syncing policies'' [] # Call Primary ListPolicies x # evs"
  unfolding sync_policies_def
  by (auto simp: trace_defs extends_iff split: sum.splits prod.splits
      dest!: sync_policies_loop_extends)

lemma sync_secrets_head:
  "sync_secrets depth self h = Some (r, h') \<Longrightarrow>
   \<exists>x evs. h' = h @ Log INFO ''Syncing secrets'' [] # Call Primary ListSecretEngines x # evs"
  unfolding sync_secrets_def
  by (auto simp: trace_defs extends_iff split: sum.splits prod.splits
      dest!: sync_mounts_loop_extends)

text \<open>
  C4. Once both health checks and the reset have succeeded, the four replication phases run
  one after the other, secret engines, auth methods, policies, secrets, each on the trace
  the one before left, whatever the earlier phases returned; each logs its start and lists
  the primary. \<^verbatim>\<open>full_sync\<close> returns the conjunction of the four results, after one closing
  log line.
\<close>

theorem full_sync_runs_all_phases:
  assumes "health_check_both self (logger INFO ''Starting full synchronization'' [] h) = (True, h2)"
    and "clear_secondary self h2 = (True, h3)"
    and "sync_secret_engines self h3 = (r1, h4)"
    and "sync_auth_methods self h4 = (r2, h5)"
    and "sync_policies self h5 = (r3, h6)"
    and "sync_secrets depth self h6 = Some (r4, h7)"
  shows "full_sync depth self h =
           Some (r1 \<and> r2 \<and> r3 \<and> r4,
             h7 @ [if r1 \<and> r2 \<and> r3 \<and> r4
                   then Log INFO ''Full synchronization completed successfully'' []
                   else Log ERROR ''Full synchronization completed with errors'' []])
         \<and> (\<exists>x1 e1 x2 e2 x3 e3 x4 e4.
               h7 = h3 @ Log INFO ''Syncing secret engines'' [] # Call Primary ListSecretEngines x1 # e1
                       @ Log INFO ''Syncing auth methods'' [] # Call Primary ListAuthMethods x2 # e2
                       @ Log INFO ''Syncing policies'' [] # Call Primary ListPolicies x3 # e3
                       @ Log INFO ''Syncing secrets'' [] # Call Primary ListSecretEngines x4 # e4)"
proof
  show "full_sync depth self h =
           Some (r1 \<and> r2 \<and> r3 \<and> r4,
             h7 @ [if r1 \<and> r2 \<and> r3 \<and> r4
                   then Log INFO ''Full synchronization completed successfully'' []
                   else Log ERROR ''Full synchronization completed with errors'' []])"
    using assms by (simp add: full_sync_def Let_def logger_def)
  from sync_secret_engines_head[OF assms(3)] sync_auth_methods_head[OF assms(4)]
    sync_policies_head[OF assms(5)] sync_secrets_head[OF assms(6)]
  show "\<exists>x1 e1 x2 e2 x3 e3 x4 e4.
               h7 = h3 @ Log INFO ''Syncing secret engines'' [] # Call Primary ListSecretEngines x1 # e1
                       @ Log INFO ''Syncing auth methods'' [] # Call Primary ListAuthMethods x2 # e2
                       @ Log INFO ''Syncing policies'' [] # Call Primary ListPolicies x3 # e3
                       @ Log INFO ''Syncing secrets'' [] # Call Primary ListSecretEngines x4 # e4"
    by (elim exE) (simp, blast)
qed


lemmas script_defs = scripted_sync_def scripted_primary_def scripted_secondary_def init_def
  client_of_def startswith_def endswith_def rstrip_def lstrip_def strip_def is_slash_def
  system_policies_def should_exclude_path_def dict_get_def

lemmas run_defs = run_health_def run_reset_def run_engines_def run_auth_def run_policies_def
  run_secrets_def

lemma scripted_health:
  "health_check_both (scripted_sync [''sys/''])
     (logger INFO ''Starting full synchronization'' [] []) = (True, run_health)"
  by (simp add: health_check_both_def trace_defs script_defs run_defs)

lemma scripted_reset:
  "clear_secondary (scripted_sync [''sys/'']) run_health = (True, run_health @ run_reset)"
  by (simp add: clear_secondary_def clear_failed_def trace_defs script_defs run_defs)

lemma scripted_engines:
  "sync_secret_engines (scripted_sync [''sys/'']) (run_health @ run_reset)
     = (False, run_health @ run_reset @ run_engines)"
  by (simp add: sync_secret_engines_def trace_defs script_defs run_defs)

lemma scripted_auth:
  "sync_auth_methods (scripted_sync [''sys/'']) (run_health @ run_reset @ run_engines)
     = (True, run_health @ run_reset @ run_engines @ run_auth)"
  by (simp add: sync_auth_methods_def trace_defs script_defs run_defs)

lemma scripted_policies:
  "sync_policies (scripted_sync [''sys/'']) (run_health @ run_reset @ run_engines @ run_auth)
     = (True, run_health @ run_reset @ run_engines @ run_auth @ run_policies)"
  by (simp add: sync_policies_def trace_defs script_defs run_defs)

lemma scripted_secrets:
  "sync_secrets 2 (scripted_sync [''sys/''])
     (run_health @ run_reset @ run_engines @ run_auth @ run_policies)
     = Some (False,
         run_health @ run_reset @ run_engines @ run_auth @ run_policies @ run_secrets)"
  by (simp add: sync_secrets_def trace_defs script_defs run_defs numeral_2_eq_2)

lemma scripted_full_sync:
  "full_sync 2 (scripted_sync [''sys/'']) []
     = Some (False,
         run_health @ run_reset @ run_engines @ run_auth @ run_policies @ run_secrets
           @ [Log ERROR ''Full synchronization completed with errors'' []])"
  by (simp add: full_sync_def Let_def scripted_health scripted_reset scripted_engines
      scripted_auth scripted_policies scripted_secrets, simp add: logger_def)

theorem full_sync_runs_all_phases_witness:
  "full_sync 2 (scripted_sync [''sys/'']) []
     = Some (False,
         run_health @ run_reset @ run_engines @ run_auth @ run_policies @ run_secrets
           @ [Log ERROR ''Full synchronization completed with errors'' []])
   \<and> map fst (filter (\<lambda>cr. is_apply (fst cr)) (calls_to Secondary
         (run_engines @ run_auth @ run_policies @ run_secrets)))
     = [EnableSecretEngine ''secret'' (JStr ''kv'')
          (JObj [(''description'', JStr []), (''config'', JObj []), (''options'', JObj [])]),
        WritePolicy ''ops'' ''path rules'',
        WriteSecret ''secret/a'' [(''v'', JNum 1)],
        WriteSecret ''secret/b/c'' [(''v'', JNum 2)]]"
  using full_sync_runs_all_phases[OF scripted_health scripted_reset scripted_engines
      scripted_auth scripted_policies scripted_secrets]
  by (simp add: run_defs)

lemma full_sync_extends:
  assumes "full_sync depth self h = Some (ok, h')"
  shows "extends (\<lambda>e. health_event e \<or> reset_event e \<or> replication_event e) h h'"
proof -
  let ?Q = "\<lambda>e. health_event e \<or> reset_event e \<or> replication_event e"
  let ?h1 = "logger INFO ''Starting full synchronization'' [] h"
  obtain r2 h2 where hc: "health_check_both self ?h1 = (r2, h2)" by force
  have e1: "extends ?Q h ?h1" by (simp add: extends_iff logger_def)
  have e2: "extends ?Q ?h1 h2"
    using health_check_both_extends[OF hc] by (rule extends_mono) simp
  note e12 = extends_trans[OF e1 e2]
  show ?thesis
  proof (cases r2)
    case False
    with assms hc have "h' = h2" by (simp add: full_sync_def Let_def)
    with e12 show ?thesis by simp
  next
    case True
    obtain r3 h3 where cl: "clear_secondary self h2 = (r3, h3)" by force
    have e3: "extends ?Q h2 h3"
      using clear_secondary_extends[OF cl] by (rule extends_mono) simp
    note e13 = extends_trans[OF e12 e3]
    show ?thesis
    proof (cases r3)
      case False
      with assms hc cl True have "h' = h3" by (simp add: full_sync_def Let_def)
      with e13 show ?thesis by simp
    next
      case r3: True
      obtain r4 h4 where p1: "sync_secret_engines self h3 = (r4, h4)" by force
      obtain r5 h5 where p2: "sync_auth_methods self h4 = (r5, h5)" by force
      obtain r6 h6 where p3: "sync_policies self h5 = (r6, h6)" by force
      from assms hc cl True r3 p1 p2 p3 obtain r7 h7 where
        p4: "sync_secrets depth self h6 = Some (r7, h7)" and
        fin: "h' = h7 @ [Log INFO ''Full synchronization completed successfully'' []]
              \<or> h' = h7 @ [Log ERROR ''Full synchronization completed with errors'' []]"
        by (auto simp: full_sync_def Let_def logger_def split: option.splits if_splits)
      have "extends ?Q h3 h4"
        using sync_secret_engines_extends[OF p1] by (rule extends_mono) simp
      moreover have "extends ?Q h4 h5"
        using sync_auth_methods_extends[OF p2] by (rule extends_mono) simp
      moreover have "extends ?Q h5 h6"
        using sync_policies_extends[OF p3] by (rule extends_mono) simp
      moreover have "extends ?Q h6 h7"
        using sync_secrets_extends[OF p4] by (rule extends_mono) simp
      moreover have "extends ?Q h7 h'"
        using fin by (auto simp: extends_iff)
      ultimately show ?thesis
        using e13 by (blast intro: extends_trans)
    qed
  qed
qed

lemma replay_append: "replay t (h @ evs) cl = replay t evs (replay t h cl)"
  by (induction t h cl rule: replay.induct) auto

lemma readonly_cluster_step: "readonly c \<Longrightarrow> cluster_step c cl = cl"
  by (cases c) (auto simp: cluster_step_def)

lemma replay_primary_frame: "list_all frame_event evs \<Longrightarrow> replay Primary evs cl = cl"
proof (induction evs)
  case Nil
  then show ?case by simp
next
  case (Cons e evs)
  then show ?case
  proof (cases e)
    case (Call t c r)
    with Cons show ?thesis by (cases t) (auto simp: readonly_cluster_step)
  next
    case (Log lvl msg args)
    with Cons show ?thesis by simp
  qed
qed

text \<open>
  C9. In a pass of \<^verbatim>\<open>full_sync\<close> every call directed at the primary is a health check, a
  listing or a read; every enable, disable, write and delete goes to the secondary. Hence a
  cluster that executes the calls the pass directs at the primary ends in the state it
  started in.
\<close>

theorem full_sync_only_asks_primary:
  assumes "full_sync depth self h = Some (ok, h')"
  shows "extends frame_event h h'
       \<and> (\<forall>t c r. Call t c r \<in> set (drop (length h) h') \<and> \<not> readonly c \<longrightarrow> t = Secondary)
       \<and> replay Primary h' cl = replay Primary h cl"
proof -
  have fr: "extends frame_event h h'"
    using full_sync_extends[OF assms]
  proof (rule extends_mono)
    fix e assume "health_event e \<or> reset_event e \<or> replication_event e"
    then show "frame_event e"
      by (cases e rule: frame_event.cases) (auto elim: is_erase.elims)
  qed
  then obtain evs where evs: "h' = h @ evs" "list_all frame_event evs"
    by (auto simp: extends_iff)
  have "t = Secondary" if "Call t c r \<in> set evs" "\<not> readonly c" for t c r
    using evs(2) that by (cases t) (auto simp: list_all_iff)
  with fr evs show ?thesis
    by (auto simp: replay_append replay_primary_frame)
qed


theorem full_sync_only_asks_primary_witness:
  "extends frame_event []
     (run_health @ run_reset @ run_engines @ run_auth @ run_policies @ run_secrets
        @ [Log ERROR ''Full synchronization completed with errors'' []])
   \<and> replay Primary
       (run_health @ run_reset @ run_engines @ run_auth @ run_policies @ run_secrets
          @ [Log ERROR ''Full synchronization completed with errors'' []]) demo_primary
     = demo_primary"
  using full_sync_only_asks_primary[OF scripted_full_sync, of demo_primary] by simp

text \<open>
  C10. At a leaf of the traversal, a read that returns an empty mapping is handled exactly
  as a read that returns nothing: the loop goes on to the remaining keys with \<^verbatim>\<open>success\<close>
  unchanged, having added to the trace the debug line, the read and the warning, and no
  call to the secondary.
\<close>

theorem empty_secret_is_not_written:
  assumes "\<not> endswith key ''/''"
    and "current_path = strip (full_path @ ''/'' @ key)"
    and "read_secret (primary self) current_path
           (h @ [Log DEBUG ''Syncing secret: {current_path}'' [JStr current_path]]) = Inr d"
    and "d = None \<or> d = Some []"
  shows "sync_keys_loop recurse self full_path sub_path (key # rest) success h =
         sync_keys_loop recurse self full_path sub_path rest success
           (h @ [Log DEBUG ''Syncing secret: {current_path}'' [JStr current_path],
                 Call Primary (ReadSecret current_path) (RSecret d),
                 Log WARNING ''Could not read secret: {current_path}'' [JStr current_path]])"
  using assms by (auto simp: trace_defs client_of_def)

theorem empty_secret_is_not_written_witness:
  "sync_keys_loop (\<lambda>sub h. None) (scripted_sync []) ''secret'' [] [''empty'', ''gone''] True []
     = Some (Inr True,
         [Log DEBUG ''Syncing secret: {current_path}'' [JStr ''secret/empty''],
          Call Primary (ReadSecret ''secret/empty'') (RSecret (Some [])),
          Log WARNING ''Could not read secret: {current_path}'' [JStr ''secret/empty''],
          Log DEBUG ''Syncing secret: {current_path}'' [JStr ''secret/gone''],
          Call Primary (ReadSecret ''secret/gone'') (RSecret None),
          Log WARNING ''Could not read secret: {current_path}'' [JStr ''secret/gone'']])"
proof -
  have a: "\<not> endswith ''empty'' ''/''"
    by (simp add: endswith_def)
  have b: "''secret/empty'' = strip (''secret'' @ ''/'' @ ''empty'')"
    by (simp add: script_defs)
  have c: "read_secret (primary (scripted_sync [])) ''secret/empty''
             ([] @ [Log DEBUG ''Syncing secret: {current_path}'' [JStr ''secret/empty'']])
           = Inr (Some [])"
    by (simp add: script_defs)
  from empty_secret_is_not_written[OF a b c, of "\<lambda>sub h. None" "[]" "[''gone'']" True]
  show ?thesis
    by (simp add: trace_defs script_defs)
qed

lemma calls_to_append: "calls_to t (h @ evs) = calls_to t h @ calls_to t evs"
  by (induction t h rule: calls_to.induct) auto

lemma disable_engines_loop_calls:
  "map fst (calls_to Secondary (disable_engines_loop self items h)) =
   map fst (calls_to Secondary h) @
   map (\<lambda>p. DisableSecretEngine (rstrip p))
     (filter (\<lambda>p. \<not> startswith p ''sys/'' \<and> \<not> startswith p ''identity/'') (map fst items))"
proof (induction items arbitrary: h)
  case Nil
  then show ?case by simp
next
  case (Cons a items)
  show ?case
    by (cases a) (auto simp: Cons.IH trace_defs calls_to_append)
qed

lemma disable_auth_loop_calls:
  "map fst (calls_to Secondary (disable_auth_loop self items h)) =
   map fst (calls_to Secondary h) @
   map (\<lambda>p. DisableAuthMethod (rstrip p))
     (filter (\<lambda>p. p \<noteq> ''token/'' \<and> \<not> startswith p ''sys/'') (map fst items))"
proof (induction items arbitrary: h)
  case Nil
  then show ?case by simp
next
  case (Cons a items)
  show ?case
    by (cases a) (auto simp: Cons.IH trace_defs calls_to_append)
qed

lemma delete_policies_loop_calls:
  "map fst (calls_to Secondary (delete_policies_loop self items h)) =
   map fst (calls_to Secondary h) @
   map DeletePolicy (filter (\<lambda>n. n \<notin> system_policies) items)"
proof (induction items arbitrary: h)
  case Nil
  then show ?case by simp
next
  case (Cons a items)
  show ?case
    by (auto simp: Cons.IH trace_defs calls_to_append)
qed

lemma loop_new_calls:
  assumes "extends Q h h'"
    and "map fst (calls_to t h') = map fst (calls_to t h) @ cs"
  shows "\<exists>evs. h' = h @ evs \<and> map fst (calls_to t evs) = cs"
  using assms by (auto simp: extends_iff calls_to_append)

lemma clear_secondary_ignores_exclusions:
  "clear_secondary (self\<lparr>exclude_paths := E\<rparr>) h = clear_secondary self h"
proof -
  have c: "client_of t (self\<lparr>exclude_paths := E\<rparr>) = client_of t self" for t
    by (cases t) (simp_all add: client_of_def)
  have l1: "disable_engines_loop (self\<lparr>exclude_paths := E\<rparr>) items k
            = disable_engines_loop self items k" for items k
    by (induction items arbitrary: k) (auto simp: call_defs c)
  have l2: "disable_auth_loop (self\<lparr>exclude_paths := E\<rparr>) items k
            = disable_auth_loop self items k" for items k
    by (induction items arbitrary: k) (auto simp: call_defs c)
  have l3: "delete_policies_loop (self\<lparr>exclude_paths := E\<rparr>) items k
            = delete_policies_loop self items k" for items k
    by (induction items arbitrary: k) (auto simp: call_defs c)
  show ?thesis
    by (auto simp: clear_secondary_def call_defs Let_def c l1 l2 l3 split: sum.splits)
qed

lemma clear_secondary_structure:
  assumes "clear_secondary self h = (True, h')"
  shows "\<exists>engines e1 auth_methods e2 policies e3.
           h' = h @ Log INFO ''Clearing secondary cluster data'' []
                  # Call Secondary ListSecretEngines (RDict engines) # e1
                  @ Call Secondary ListAuthMethods (RDict auth_methods) # e2
                  @ Call Secondary ListPolicies (RNames policies) # e3
                  @ [Log INFO ''Secondary cluster cleared successfully'' []]
         \<and> map fst (calls_to Secondary e1) =
             map (\<lambda>p. DisableSecretEngine (rstrip p))
               (filter (\<lambda>p. \<not> startswith p ''sys/'' \<and> \<not> startswith p ''identity/'')
                  (map fst engines))
         \<and> map fst (calls_to Secondary e2) =
             map (\<lambda>p. DisableAuthMethod (rstrip p))
               (filter (\<lambda>p. p \<noteq> ''token/'' \<and> \<not> startswith p ''sys/'') (map fst auth_methods))
         \<and> map fst (calls_to Secondary e3) =
             map DeletePolicy (filter (\<lambda>n. n \<notin> system_policies) policies)
         \<and> list_secret_engines (secondary self)
               (h @ [Log INFO ''Clearing secondary cluster data'' []]) = Inr engines
         \<and> list_auth_methods (secondary self)
               (h @ Log INFO ''Clearing secondary cluster data'' []
                  # Call Secondary ListSecretEngines (RDict engines) # e1) = Inr auth_methods
         \<and> list_policies (secondary self)
               (h @ Log INFO ''Clearing secondary cluster data'' []
                  # Call Secondary ListSecretEngines (RDict engines) # e1
                  @ Call Secondary ListAuthMethods (RDict auth_methods) # e2) = Inr policies"
proof -
  define h1 where "h1 = logger INFO ''Clearing secondary cluster data'' [] h"
  from assms obtain engines where
    r1: "list_secret_engines (client_of Secondary self) h1 = Inr engines"
    by (auto simp: clear_secondary_def clear_failed_def call_defs Let_def h1_def
        split: sum.splits)
  define h2 where "h2 = returned Secondary ListSecretEngines (RDict engines) h1"
  define h3 where "h3 = disable_engines_loop self engines h2"
  from assms r1 obtain auth_methods where
    r2: "list_auth_methods (client_of Secondary self) h3 = Inr auth_methods"
    by (auto simp: clear_secondary_def clear_failed_def call_defs Let_def h1_def h2_def h3_def
        split: sum.splits)
  define h4 where "h4 = returned Secondary ListAuthMethods (RDict auth_methods) h3"
  define h5 where "h5 = disable_auth_loop self auth_methods h4"
  from assms r1 r2 obtain policies where
    r3: "list_policies (client_of Secondary self) h5 = Inr policies"
    by (auto simp: clear_secondary_def clear_failed_def call_defs Let_def
        h1_def h2_def h3_def h4_def h5_def split: sum.splits)
  define h6 where "h6 = returned Secondary ListPolicies (RNames policies) h5"
  define h7 where "h7 = delete_policies_loop self policies h6"
  from assms r1 r2 r3 have h': "h' = logger INFO ''Secondary cluster cleared successfully'' [] h7"
    by (simp add: clear_secondary_def call_defs Let_def
        h1_def h2_def h3_def h4_def h5_def h6_def h7_def)
  from loop_new_calls[OF disable_engines_loop_extends[OF extends_refl] disable_engines_loop_calls]
  obtain e1 where e1: "h3 = h2 @ e1" "map fst (calls_to Secondary e1) =
             map (\<lambda>p. DisableSecretEngine (rstrip p))
               (filter (\<lambda>p. \<not> startswith p ''sys/'' \<and> \<not> startswith p ''identity/'')
                  (map fst engines))"
    unfolding h3_def by blast
  from loop_new_calls[OF disable_auth_loop_extends[OF extends_refl] disable_auth_loop_calls]
  obtain e2 where e2: "h5 = h4 @ e2" "map fst (calls_to Secondary e2) =
             map (\<lambda>p. DisableAuthMethod (rstrip p))
               (filter (\<lambda>p. p \<noteq> ''token/'' \<and> \<not> startswith p ''sys/'') (map fst auth_methods))"
    unfolding h5_def by blast
  from loop_new_calls[OF delete_policies_loop_extends[OF extends_refl] delete_policies_loop_calls]
  obtain e3 where e3: "h7 = h6 @ e3" "map fst (calls_to Secondary e3) =
             map DeletePolicy (filter (\<lambda>n. n \<notin> system_policies) policies)"
    unfolding h7_def by blast
  have "h' = h @ Log INFO ''Clearing secondary cluster data'' []
                  # Call Secondary ListSecretEngines (RDict engines) # e1
                  @ Call Secondary ListAuthMethods (RDict auth_methods) # e2
                  @ Call Secondary ListPolicies (RNames policies) # e3
                  @ [Log INFO ''Secondary cluster cleared successfully'' []]"
    by (simp add: h' e3(1) h6_def e2(1) h4_def e1(1) h2_def h1_def logger_def returned_def)
  moreover from r1 have "list_secret_engines (secondary self)
      (h @ [Log INFO ''Clearing secondary cluster data'' []]) = Inr engines"
    by (simp add: client_of_def h1_def logger_def)
  moreover from r2 have "list_auth_methods (secondary self)
      (h @ Log INFO ''Clearing secondary cluster data'' []
         # Call Secondary ListSecretEngines (RDict engines) # e1) = Inr auth_methods"
    by (simp add: client_of_def e1(1) h2_def h1_def logger_def returned_def)
  moreover from r3 have "list_policies (secondary self)
      (h @ Log INFO ''Clearing secondary cluster data'' []
         # Call Secondary ListSecretEngines (RDict engines) # e1
         @ Call Secondary ListAuthMethods (RDict auth_methods) # e2) = Inr policies"
    by (simp add: client_of_def e2(1) h4_def e1(1) h2_def h1_def logger_def returned_def)
  ultimately show ?thesis using e1(2) e2(2) e3(2) by blast
qed


text \<open>
  C2 (as amended). The reset never looks at the exclusion set. What it spares is fixed in
  the code: secret engines under \<^verbatim>\<open>sys/\<close> or \<^verbatim>\<open>identity/\<close>, the auth method \<^verbatim>\<open>token/\<close> and
  auth methods under \<^verbatim>\<open>sys/\<close>, the policies \<^verbatim>\<open>root\<close> and \<^verbatim>\<open>default\<close>. A reset that succeeds
  has listed the secondary three times and has issued a disable or delete for every other
  listed path, in listing order, and for nothing else.
\<close>

theorem clear_secondary_spares_only_system_objects:
  "clear_secondary (self\<lparr>exclude_paths := E\<rparr>) h = clear_secondary self h
   \<and> (clear_secondary self h = (True, h') \<longrightarrow>
        (\<exists>engines e1 auth_methods e2 policies e3.
           h' = h @ Log INFO ''Clearing secondary cluster data'' []
                  # Call Secondary ListSecretEngines (RDict engines) # e1
                  @ Call Secondary ListAuthMethods (RDict auth_methods) # e2
                  @ Call Secondary ListPolicies (RNames policies) # e3
                  @ [Log INFO ''Secondary cluster cleared successfully'' []]
         \<and> map fst (calls_to Secondary e1) =
             map (\<lambda>p. DisableSecretEngine (rstrip p))
               (filter (\<lambda>p. \<not> startswith p ''sys/'' \<and> \<not> startswith p ''identity/'')
                  (map fst engines))
         \<and> map fst (calls_to Secondary e2) =
             map (\<lambda>p. DisableAuthMethod (rstrip p))
               (filter (\<lambda>p. p \<noteq> ''token/'' \<and> \<not> startswith p ''sys/'') (map fst auth_methods))
         \<and> map fst (calls_to Secondary e3) =
             map DeletePolicy (filter (\<lambda>n. n \<notin> system_policies) policies)))"
  using clear_secondary_ignores_exclusions clear_secondary_structure by blast

theorem clear_secondary_spares_only_system_objects_witness:
  "clear_secondary ((scripted_sync [''sys/''])\<lparr>exclude_paths := [''old/'', ''custom'']\<rparr>) run_health
     = (True, run_health @ run_reset)
   \<and> map fst (filter (\<lambda>cr. is_erase (fst cr)) (calls_to Secondary run_reset))
     = [DisableSecretEngine ''old'', DeletePolicy ''custom1'']"
  using clear_secondary_spares_only_system_objects
          [where self = "scripted_sync [''sys/'']" and E = "[''old/'', ''custom'']"
             and h = run_health and h' = "run_health @ run_reset"]
    scripted_reset
  by (simp add: run_reset_def)

theorem clear_secondary_erases_excluded_counterexample:
  "should_exclude_path (scripted_sync [''old/'', ''custom'']) ''old/''
   \<and> should_exclude_path (scripted_sync [''old/'', ''custom'']) ''custom1''
   \<and> clear_secondary (scripted_sync [''old/'', ''custom'']) []
       = (True,
          [Log INFO ''Clearing secondary cluster data'' [],
           Call Secondary ListSecretEngines (RDict [(''old/'', JObj [(''type'', JStr ''kv'')])]),
           Log INFO ''Disabling secret engine: {path}'' [JStr ''old/''],
           Call Secondary (DisableSecretEngine ''old'') (RBool True),
           Call Secondary ListAuthMethods
             (RDict [(''token/'', JObj [(''type'', JStr ''token'')])]),
           Call Secondary ListPolicies (RNames [''default'', ''custom1'']),
           Log INFO ''Deleting policy: {policy}'' [JStr ''custom1''],
           Call Secondary (DeletePolicy ''custom1'') (RBool True),
           Log INFO ''Secondary cluster cleared successfully'' []])"
  by (simp add: clear_secondary_def clear_failed_def trace_defs script_defs)

lemmas request_defs = engine_request_def auth_request_def as_dict_def has_type_def is_dict_def
  engine_eligible_def auth_eligible_def all_true_def

lemma sync_engines_loop_calls:
  "sync_engines_loop self items success h = (res, h') \<Longrightarrow>
   \<exists>evs. h' = h @ evs \<and> calls_to Primary evs = []
     \<and> prefix (map fst (calls_to Secondary evs))
          (map engine_request (filter (engine_eligible self) items))
     \<and> (\<forall>ok. res = Inr ok \<longrightarrow>
           map fst (calls_to Secondary evs) = map engine_request (filter (engine_eligible self) items)
           \<and> ok = (success \<and> all_true (calls_to Secondary evs)))"
proof (induction items arbitrary: h success)
  case Nil
  then show ?case by (auto simp: all_true_def)
next
  case (Cons a items)
  obtain path config where a: "a = (path, config)" by (cases a)
  show ?case
  proof (cases config)
    case (JObj cfg)
    with Cons.prems a show ?thesis
      by (auto simp: trace_defs request_defs calls_to_append split: if_splits dest!: Cons.IH)
  qed (use Cons.prems a in
        \<open>auto simp: trace_defs request_defs calls_to_append split: if_splits dest!: Cons.IH\<close>)
qed


lemma sync_auth_loop_calls:
  "sync_auth_loop self items success h = (res, h') \<Longrightarrow>
   \<exists>evs. h' = h @ evs \<and> calls_to Primary evs = []
     \<and> prefix (map fst (calls_to Secondary evs))
          (map auth_request (filter (auth_eligible self) items))
     \<and> (\<forall>ok. res = Inr ok \<longrightarrow>
           map fst (calls_to Secondary evs) = map auth_request (filter (auth_eligible self) items)
           \<and> ok = (success \<and> all_true (calls_to Secondary evs)))"
proof (induction items arbitrary: h success)
  case Nil
  then show ?case by (auto simp: all_true_def)
next
  case (Cons a items)
  obtain path config where a: "a = (path, config)" by (cases a)
  show ?case
  proof (cases config)
    case (JObj cfg)
    with Cons.prems a show ?thesis
      by (auto simp: trace_defs request_defs calls_to_append split: if_splits dest!: Cons.IH)
  qed (use Cons.prems a in
        \<open>auto simp: trace_defs request_defs calls_to_append split: if_splits dest!: Cons.IH\<close>)
qed

lemma sync_policies_loop_calls:
  "sync_policies_loop self items success h = (res, h') \<Longrightarrow>
   \<exists>evs. h' = h @ evs
     \<and> prefix (map fst (calls_to Primary evs))
          (map ReadPolicy (filter (\<lambda>n. n \<notin> system_policies) items))
     \<and> (\<forall>c r. (c, r) \<in> set (calls_to Secondary evs) \<longrightarrow>
           (\<exists>name doc. c = WritePolicy name doc \<and> name \<in> set items \<and> name \<notin> system_policies))
     \<and> (\<forall>e. res = Inl e \<longrightarrow> \<not> none_raised (calls_to Primary evs))
     \<and> (\<forall>ok. res = Inr ok \<longrightarrow>
             none_raised (calls_to Primary evs)
             \<and> map fst (calls_to Primary evs) =
                 map ReadPolicy (filter (\<lambda>n. n \<notin> system_policies) items)
             \<and> ok = (success \<and> all_true (calls_to Secondary evs)))"
proof (induction items arbitrary: h success)
  case Nil
  then show ?case by (auto simp: all_true_def none_raised_def)
next
  case (Cons name items)
  show ?case
  proof (cases "name \<in> system_policies")
    case True
    with Cons.prems show ?thesis
      by (auto dest!: Cons.IH; blast)
  next
    case False
    show ?thesis
    proof (cases "read_policy (client_of Primary self) name h")
      case (Inl e)
      with Cons.prems False show ?thesis
        by (auto simp: trace_defs none_raised_def)
    next
      case (Inr d)
      show ?thesis
      proof (cases d)
        case None
        with Cons.prems False Inr show ?thesis
          by (auto simp: trace_defs none_raised_def all_true_def calls_to_append
              dest!: Cons.IH; blast)
      next
        case (Some doc)
        with Cons.prems False Inr show ?thesis
          by (auto simp: trace_defs none_raised_def all_true_def calls_to_append
              split: if_splits dest!: Cons.IH; blast)
      qed
    qed
  qed
qed









lemma sync_engines_loop_returns:
  "list_all (\<lambda>item. is_dict (snd item)) items \<Longrightarrow>
   \<exists>ok. fst (sync_engines_loop self items success h) = Inr ok"
proof (induction items arbitrary: h success)
  case Nil
  then show ?case by simp
next
  case (Cons a items)
  obtain path config where a: "a = (path, config)" by (cases a)
  from Cons.prems a obtain cfg where "config = JObj cfg"
    by (cases config) (auto simp: is_dict_def)
  with Cons a show ?case
    by (auto simp: call_defs Let_def)
qed

lemma sync_auth_loop_returns:
  "list_all (\<lambda>item. is_dict (snd item)) items \<Longrightarrow>
   \<exists>ok. fst (sync_auth_loop self items success h) = Inr ok"
proof (induction items arbitrary: h success)
  case Nil
  then show ?case by simp
next
  case (Cons a items)
  obtain path config where a: "a = (path, config)" by (cases a)
  from Cons.prems a obtain cfg where "config = JObj cfg"
    by (cases config) (auto simp: is_dict_def)
  with Cons a show ?case
    by (auto simp: call_defs Let_def)
qed

lemma sync_secret_engines_calls:
  assumes "sync_secret_engines self h = (ok, h')"
  shows "\<exists>evs. h' = h @ evs
     \<and> ((\<exists>e. calls_to Primary evs = [(ListSecretEngines, RRaise e)] \<and> calls_to Secondary evs = [])
        \<or> (\<exists>engines. calls_to Primary evs = [(ListSecretEngines, RDict engines)]
              \<and> prefix (map fst (calls_to Secondary evs))
                   (map engine_request (filter (engine_eligible self) engines))
              \<and> (list_all (\<lambda>item. is_dict (snd item)) engines \<longrightarrow>
                    map fst (calls_to Secondary evs) =
                      map engine_request (filter (engine_eligible self) engines)
                    \<and> ok = all_true (calls_to Secondary evs))))"
proof (cases "list_secret_engines (client_of Primary self)
    (logger INFO ''Syncing secret engines'' [] h)")
  case (Inl e)
  with assms show ?thesis
    by (auto simp: sync_secret_engines_def trace_defs)
next
  case (Inr engines)
  let ?h2 = "h @ [Log INFO ''Syncing secret engines'' [],
                  Call Primary ListSecretEngines (RDict engines)]"
  obtain res h3 where l: "sync_engines_loop self engines True ?h2 = (res, h3)" by force
  from sync_engines_loop_calls[OF l] obtain evs where evs: "h3 = ?h2 @ evs"
    "calls_to Primary evs = []"
    "prefix (map fst (calls_to Secondary evs))
       (map engine_request (filter (engine_eligible self) engines))"
    "\<forall>ok. res = Inr ok \<longrightarrow>
       map fst (calls_to Secondary evs) = map engine_request (filter (engine_eligible self) engines)
       \<and> ok = (True \<and> all_true (calls_to Secondary evs))"
    by blast
  have ret: "\<exists>r. res = Inr r" if "list_all (\<lambda>item. is_dict (snd item)) engines"
    using sync_engines_loop_returns[OF that, of self True ?h2] l by simp
  show ?thesis
  proof (cases res)
    case (Inl e)
    with assms Inr l evs ret show ?thesis
      by (auto simp: sync_secret_engines_def trace_defs calls_to_append)
  next
    case r: (Inr r)
    with assms Inr l evs show ?thesis
      by (auto simp: sync_secret_engines_def trace_defs calls_to_append)
  qed
qed

lemma sync_auth_methods_calls:
  assumes "sync_auth_methods self h = (ok, h')"
  shows "\<exists>evs. h' = h @ evs
     \<and> ((\<exists>e. calls_to Primary evs = [(ListAuthMethods, RRaise e)] \<and> calls_to Secondary evs = [])
        \<or> (\<exists>methods. calls_to Primary evs = [(ListAuthMethods, RDict methods)]
              \<and> prefix (map fst (calls_to Secondary evs))
                   (map auth_request (filter (auth_eligible self) methods))
              \<and> (list_all (\<lambda>item. is_dict (snd item)) methods \<longrightarrow>
                    map fst (calls_to Secondary evs) =
                      map auth_request (filter (auth_eligible self) methods)
                    \<and> ok = all_true (calls_to Secondary evs))))"
proof (cases "list_auth_methods (client_of Primary self)
    (logger INFO ''Syncing auth methods'' [] h)")
  case (Inl e)
  with assms show ?thesis
    by (auto simp: sync_auth_methods_def trace_defs)
next
  case (Inr methods)
  let ?h2 = "h @ [Log INFO ''Syncing auth methods'' [],
                  Call Primary ListAuthMethods (RDict methods)]"
  obtain res h3 where l: "sync_auth_loop self methods True ?h2 = (res, h3)" by force
  from sync_auth_loop_calls[OF l] obtain evs where evs: "h3 = ?h2 @ evs"
    "calls_to Primary evs = []"
    "prefix (map fst (calls_to Secondary evs))
       (map auth_request (filter (auth_eligible self) methods))"
    "\<forall>ok. res = Inr ok \<longrightarrow>
       map fst (calls_to Secondary evs) = map auth_request (filter (auth_eligible self) methods)
       \<and> ok = (True \<and> all_true (calls_to Secondary evs))"
    by blast
  have ret: "\<exists>r. res = Inr r" if "list_all (\<lambda>item. is_dict (snd item)) methods"
    using sync_auth_loop_returns[OF that, of self True ?h2] l by simp
  show ?thesis
  proof (cases res)
    case (Inl e)
    with assms Inr l evs ret show ?thesis
      by (auto simp: sync_auth_methods_def trace_defs calls_to_append)
  next
    case r: (Inr r)
    with assms Inr l evs show ?thesis
      by (auto simp: sync_auth_methods_def trace_defs calls_to_append)
  qed
qed

lemma sync_policies_calls:
  assumes "sync_policies self h = (ok, h')"
  shows "\<exists>evs. h' = h @ evs
     \<and> ((\<exists>e. calls_to Primary evs = [(ListPolicies, RRaise e)] \<and> calls_to Secondary evs = [])
        \<or> (\<exists>names reads. calls_to Primary evs = (ListPolicies, RNames names) # reads
              \<and> prefix (map fst reads)
                   (map ReadPolicy (filter (\<lambda>n. n \<notin> system_policies) names))
              \<and> (\<forall>c r. (c, r) \<in> set (calls_to Secondary evs) \<longrightarrow>
                    (\<exists>name doc. c = WritePolicy name doc \<and> name \<in> set names
                       \<and> name \<notin> system_policies))
              \<and> (none_raised reads \<longrightarrow>
                    map fst reads = map ReadPolicy (filter (\<lambda>n. n \<notin> system_policies) names)
                    \<and> ok = all_true (calls_to Secondary evs))))"
proof (cases "list_policies (client_of Primary self) (logger INFO ''Syncing policies'' [] h)")
  case (Inl e)
  with assms show ?thesis
    by (auto simp: sync_policies_def trace_defs)
next
  case (Inr names)
  let ?h2 = "h @ [Log INFO ''Syncing policies'' [], Call Primary ListPolicies (RNames names)]"
  obtain res h3 where l: "sync_policies_loop self names True ?h2 = (res, h3)" by force
  from sync_policies_loop_calls[OF l] obtain evs where evs: "h3 = ?h2 @ evs"
    "prefix (map fst (calls_to Primary evs))
       (map ReadPolicy (filter (\<lambda>n. n \<notin> system_policies) names))"
    "\<forall>c r. (c, r) \<in> set (calls_to Secondary evs) \<longrightarrow>
       (\<exists>name doc. c = WritePolicy name doc \<and> name \<in> set names \<and> name \<notin> system_policies)"
    "\<forall>e. res = Inl e \<longrightarrow> \<not> none_raised (calls_to Primary evs)"
    "\<forall>ok. res = Inr ok \<longrightarrow> none_raised (calls_to Primary evs)
       \<and> map fst (calls_to Primary evs) =
           map ReadPolicy (filter (\<lambda>n. n \<notin> system_policies) names)
       \<and> ok = (True \<and> all_true (calls_to Secondary evs))"
    by blast
  show ?thesis
  proof (cases res)
    case (Inl e)
    with assms Inr l evs show ?thesis
      by (auto simp: sync_policies_def trace_defs calls_to_append)
  next
    case r: (Inr r)
    with assms Inr l evs show ?thesis
      by (auto simp: sync_policies_def trace_defs calls_to_append)
  qed
qed


text \<open>
  C6 (as amended). Whatever the exclusion set, a configuration replicator applies only
  listed objects that are not protected: every enable of a secret engine is for a listed
  mount whose path starts with neither \<^verbatim>\<open>sys/\<close> nor \<^verbatim>\<open>identity/\<close>, every enable of an auth
  method is for a listed method other than \<^verbatim>\<open>token/\<close>, and every policy written is a listed
  one other than \<^verbatim>\<open>root\<close> and \<^verbatim>\<open>default\<close>. An auth method under \<^verbatim>\<open>sys/\<close> is skipped only when
  the exclusion set covers it.
\<close>

theorem replicators_skip_protected_objects:
  "(sync_secret_engines self h = (ok, h') \<longrightarrow>
      (\<exists>evs. h' = h @ evs \<and>
         (\<forall>c r. (c, r) \<in> set (calls_to Secondary evs) \<longrightarrow>
            (\<exists>engines item. calls_to Primary evs = [(ListSecretEngines, RDict engines)]
               \<and> item \<in> set engines \<and> c = engine_request item
               \<and> \<not> startswith (fst item) ''sys/'' \<and> \<not> startswith (fst item) ''identity/''
               \<and> \<not> should_exclude_path self (fst item)))))
   \<and> (sync_auth_methods self h = (ok, h') \<longrightarrow>
      (\<exists>evs. h' = h @ evs \<and>
         (\<forall>c r. (c, r) \<in> set (calls_to Secondary evs) \<longrightarrow>
            (\<exists>methods item. calls_to Primary evs = [(ListAuthMethods, RDict methods)]
               \<and> item \<in> set methods \<and> c = auth_request item
               \<and> fst item \<noteq> ''token/'' \<and> \<not> should_exclude_path self (fst item)))))
   \<and> (sync_policies self h = (ok, h') \<longrightarrow>
      (\<exists>evs. h' = h @ evs \<and>
         (\<forall>c r. (c, r) \<in> set (calls_to Secondary evs) \<longrightarrow>
            (\<exists>names name doc. hd (calls_to Primary evs) = (ListPolicies, RNames names)
               \<and> name \<in> set names \<and> c = WritePolicy name doc
               \<and> name \<noteq> ''root'' \<and> name \<noteq> ''default''))))"
proof (intro conjI impI)
  assume a: "sync_secret_engines self h = (ok, h')"
  from sync_secret_engines_calls[OF a] obtain evs where evs: "h' = h @ evs"
    "(\<exists>e. calls_to Primary evs = [(ListSecretEngines, RRaise e)] \<and> calls_to Secondary evs = [])
     \<or> (\<exists>engines. calls_to Primary evs = [(ListSecretEngines, RDict engines)]
          \<and> prefix (map fst (calls_to Secondary evs))
               (map engine_request (filter (engine_eligible self) engines)))"
    by blast
  have "\<exists>engines item. calls_to Primary evs = [(ListSecretEngines, RDict engines)]
               \<and> item \<in> set engines \<and> c = engine_request item
               \<and> \<not> startswith (fst item) ''sys/'' \<and> \<not> startswith (fst item) ''identity/''
               \<and> \<not> should_exclude_path self (fst item)"
    if c: "(c, r) \<in> set (calls_to Secondary evs)" for c r
  proof -
    from evs(2) c obtain engines where
      e: "calls_to Primary evs = [(ListSecretEngines, RDict engines)]"
         "prefix (map fst (calls_to Secondary evs))
            (map engine_request (filter (engine_eligible self) engines))"
      by auto
    from c have "c \<in> set (map fst (calls_to Secondary evs))" by force
    with set_mono_prefix[OF e(2)]
    have "c \<in> set (map engine_request (filter (engine_eligible self) engines))" by blast
    then obtain item where "item \<in> set engines" "engine_eligible self item"
      "c = engine_request item" by auto
    with e(1) show ?thesis
      by (intro exI[of _ engines] exI[of _ item]) (simp add: engine_eligible_def)
  qed
  with evs(1) show "\<exists>evs. h' = h @ evs \<and>
         (\<forall>c r. (c, r) \<in> set (calls_to Secondary evs) \<longrightarrow>
            (\<exists>engines item. calls_to Primary evs = [(ListSecretEngines, RDict engines)]
               \<and> item \<in> set engines \<and> c = engine_request item
               \<and> \<not> startswith (fst item) ''sys/'' \<and> \<not> startswith (fst item) ''identity/''
               \<and> \<not> should_exclude_path self (fst item)))"
    by blast
next
  assume a: "sync_auth_methods self h = (ok, h')"
  from sync_auth_methods_calls[OF a] obtain evs where evs: "h' = h @ evs"
    "(\<exists>e. calls_to Primary evs = [(ListAuthMethods, RRaise e)] \<and> calls_to Secondary evs = [])
     \<or> (\<exists>methods. calls_to Primary evs = [(ListAuthMethods, RDict methods)]
          \<and> prefix (map fst (calls_to Secondary evs))
               (map auth_request (filter (auth_eligible self) methods)))"
    by blast
  have "\<exists>methods item. calls_to Primary evs = [(ListAuthMethods, RDict methods)]
               \<and> item \<in> set methods \<and> c = auth_request item
               \<and> fst item \<noteq> ''token/'' \<and> \<not> should_exclude_path self (fst item)"
    if c: "(c, r) \<in> set (calls_to Secondary evs)" for c r
  proof -
    from evs(2) c obtain methods where
      e: "calls_to Primary evs = [(ListAuthMethods, RDict methods)]"
         "prefix (map fst (calls_to Secondary evs))
            (map auth_request (filter (auth_eligible self) methods))"
      by auto
    from c have "c \<in> set (map fst (calls_to Secondary evs))" by force
    with set_mono_prefix[OF e(2)]
    have "c \<in> set (map auth_request (filter (auth_eligible self) methods))" by blast
    then obtain item where "item \<in> set methods" "auth_eligible self item"
      "c = auth_request item" by auto
    with e(1) show ?thesis
      by (intro exI[of _ methods] exI[of _ item]) (simp add: auth_eligible_def)
  qed
  with evs(1) show "\<exists>evs. h' = h @ evs \<and>
         (\<forall>c r. (c, r) \<in> set (calls_to Secondary evs) \<longrightarrow>
            (\<exists>methods item. calls_to Primary evs = [(ListAuthMethods, RDict methods)]
               \<and> item \<in> set methods \<and> c = auth_request item
               \<and> fst item \<noteq> ''token/'' \<and> \<not> should_exclude_path self (fst item)))"
    by blast
next
  assume a: "sync_policies self h = (ok, h')"
  from sync_policies_calls[OF a] obtain evs where evs: "h' = h @ evs"
    "(\<exists>e. calls_to Primary evs = [(ListPolicies, RRaise e)] \<and> calls_to Secondary evs = [])
     \<or> (\<exists>names reads. calls_to Primary evs = (ListPolicies, RNames names) # reads
          \<and> (\<forall>c r. (c, r) \<in> set (calls_to Secondary evs) \<longrightarrow>
                (\<exists>name doc. c = WritePolicy name doc \<and> name \<in> set names
                   \<and> name \<notin> system_policies)))"
    by blast
  have "\<exists>names name doc. hd (calls_to Primary evs) = (ListPolicies, RNames names)
               \<and> name \<in> set names \<and> c = WritePolicy name doc
               \<and> name \<noteq> ''root'' \<and> name \<noteq> ''default''"
    if c: "(c, r) \<in> set (calls_to Secondary evs)" for c r
    using evs(2) c by (fastforce simp: system_policies_def)
  with evs(1) show "\<exists>evs. h' = h @ evs \<and>
         (\<forall>c r. (c, r) \<in> set (calls_to Secondary evs) \<longrightarrow>
            (\<exists>names name doc. hd (calls_to Primary evs) = (ListPolicies, RNames names)
               \<and> name \<in> set names \<and> c = WritePolicy name doc
               \<and> name \<noteq> ''root'' \<and> name \<noteq> ''default''))"
    by blast
qed

theorem replicators_skip_protected_objects_witness:
  "sync_secret_engines (scripted_sync [''sys/'']) (run_health @ run_reset)
     = (False, run_health @ run_reset @ run_engines)
   \<and> map fst (calls_to Secondary run_engines)
       = [engine_request (''secret/'', JObj [(''type'', JStr ''kv'')])]
   \<and> sync_auth_methods (scripted_sync [''sys/'']) (run_health @ run_reset @ run_engines)
     = (True, run_health @ run_reset @ run_engines @ run_auth)
   \<and> calls_to Secondary run_auth = []
   \<and> sync_policies (scripted_sync [''sys/'']) (run_health @ run_reset @ run_engines @ run_auth)
     = (True, run_health @ run_reset @ run_engines @ run_auth @ run_policies)
   \<and> map fst (calls_to Secondary run_policies) = [WritePolicy ''ops'' ''path rules'']"
  using replicators_skip_protected_objects
          [where self = "scripted_sync [''sys/'']" and h = "run_health @ run_reset"
             and ok = False and h' = "run_health @ run_reset @ run_engines"]
    scripted_engines scripted_auth scripted_policies
  by (simp add: run_defs engine_request_def as_dict_def dict_get_def rstrip_def is_slash_def)

theorem sys_auth_method_enabled_counterexample:
  "startswith ''sys/ldap/'' ''sys/''
   \<and> sync_auth_methods (init sys_auth_primary scripted_secondary (Some [])) []
       = (True,
          [Log INFO ''Syncing auth methods'' [],
           Call Primary ListAuthMethods (RDict [(''sys/ldap/'', JObj [(''type'', JStr ''ldap'')])]),
           Log INFO ''Enabling auth method: {path} (type: {auth_type})''
             [JStr ''sys/ldap/'', JStr ''ldap''],
           Call Secondary
             (EnableAuthMethod ''sys/ldap'' (JStr ''ldap'')
               (JObj [(''description'', JStr []), (''config'', JObj [])]))
             (RBool True)])"
  by (simp add: sync_auth_methods_def trace_defs script_defs sys_auth_primary_def)



lemma rejects_cluster_step: "rejects (cluster_step c cl) c' = rejects cl c'"
  by (cases c) (auto simp: cluster_step_def rejects_def)

lemma replay_calls: "replay t evs cl = fold cluster_step (map fst (calls_to t evs)) cl"
  by (induction t evs cl rule: replay.induct) auto

lemma rejects_fold: "rejects (fold cluster_step cs cl) c' = rejects cl c'"
  by (induction cs arbitrary: cl) (auto simp: rejects_cluster_step)

lemma sweep_step_subset:
  "readonly c \<or> is_erase c \<Longrightarrow>
   set (mounts (cluster_step c cl)) \<subseteq> set (mounts cl)
   \<and> set (auths (cluster_step c cl)) \<subseteq> set (auths cl)
   \<and> set (policies (cluster_step c cl)) \<subseteq> set (policies cl)"
  by (cases c) (auto simp: cluster_step_def remove_key_def)

lemma sweep_fold_subset:
  "\<forall>c\<in>set cs. readonly c \<or> is_erase c \<Longrightarrow>
   set (mounts (fold cluster_step cs cl)) \<subseteq> set (mounts cl)
   \<and> set (auths (fold cluster_step cs cl)) \<subseteq> set (auths cl)
   \<and> set (policies (fold cluster_step cs cl)) \<subseteq> set (policies cl)"
proof (induction cs arbitrary: cl)
  case Nil
  then show ?case by simp
next
  case (Cons c cs)
  from Cons.prems have "readonly c \<or> is_erase c" by simp
  from sweep_step_subset[OF this, of cl] Cons.IH[of "cluster_step c cl"] Cons.prems
  show ?case by auto
qed

lemma sweep_fold_removed:
  assumes "\<forall>c\<in>set cs. readonly c \<or> is_erase c" and "c \<in> set cs" and "\<not> rejects cl c"
  shows "(c = DisableSecretEngine q \<longrightarrow> q @ ''/'' \<notin> fst ` set (mounts (fold cluster_step cs cl)))
       \<and> (c = DisableAuthMethod q \<longrightarrow> q @ ''/'' \<notin> fst ` set (auths (fold cluster_step cs cl)))
       \<and> (c = DeletePolicy q \<longrightarrow> q \<notin> fst ` set (policies (fold cluster_step cs cl)))"
  using assms
proof (induction cs arbitrary: cl)
  case Nil
  then show ?case by simp
next
  case (Cons a cs)
  from Cons.prems have sw: "\<forall>c\<in>set cs. readonly c \<or> is_erase c" by simp
  show ?case
  proof (cases "c \<in> set cs")
    case True
    from Cons.IH[OF sw True, of "cluster_step a cl"] Cons.prems(3)
    show ?thesis by (simp add: rejects_cluster_step)
  next
    case False
    with Cons.prems have a: "a = c" by simp
    have "(c = DisableSecretEngine q \<longrightarrow> q @ ''/'' \<notin> fst ` set (mounts (cluster_step c cl)))
       \<and> (c = DisableAuthMethod q \<longrightarrow> q @ ''/'' \<notin> fst ` set (auths (cluster_step c cl)))
       \<and> (c = DeletePolicy q \<longrightarrow> q \<notin> fst ` set (policies (cluster_step c cl)))"
      using Cons.prems(3) by (auto simp: cluster_step_def remove_key_def)
    with sweep_fold_subset[OF sw, of "cluster_step c cl"] a show ?thesis
      by (cases c) (simp_all, blast+)
  qed
qed

lemma absent_step:
  "q @ ''/'' \<notin> fst ` set (mounts cl) \<Longrightarrow> cluster_step (DisableSecretEngine q) cl = cl"
  "q @ ''/'' \<notin> fst ` set (auths cl) \<Longrightarrow> cluster_step (DisableAuthMethod q) cl = cl"
  "n \<notin> fst ` set (policies cl) \<Longrightarrow> cluster_step (DeletePolicy n) cl = cl"
proof -
  have f: "filter (\<lambda>kv. fst kv \<noteq> k) xs = xs" if "k \<notin> fst ` set xs"
    for k :: string and xs :: "(string \<times> 'v) list"
    by (rule filter_True) (use that in auto)
  show "q @ ''/'' \<notin> fst ` set (mounts cl) \<Longrightarrow> cluster_step (DisableSecretEngine q) cl = cl"
    by (simp add: cluster_step_def remove_key_def f)
  show "q @ ''/'' \<notin> fst ` set (auths cl) \<Longrightarrow> cluster_step (DisableAuthMethod q) cl = cl"
    by (simp add: cluster_step_def remove_key_def f)
  show "n \<notin> fst ` set (policies cl) \<Longrightarrow> cluster_step (DeletePolicy n) cl = cl"
    by (simp add: cluster_step_def remove_key_def f)
qed

lemma rejected_step: "rejects cl c \<Longrightarrow> cluster_step c cl = cl"
  by (simp add: cluster_step_def)

lemma fold_noop: "\<forall>c\<in>set cs. cluster_step c cl = cl \<Longrightarrow> fold cluster_step cs cl = cl"
  by (induction cs) auto

lemma cluster_reset_succeeds:
  "clear_secondary (cluster_sync p0 s0 E) h = (r, h') \<Longrightarrow> r"
  by (auto simp: clear_secondary_def cluster_sync_def init_def cluster_client_def call_defs
      client_of_def Let_def split: sum.splits)


lemma cluster_listings:
  "list_secret_engines (secondary (cluster_sync p0 s0 E)) k = Inr engines \<Longrightarrow>
     engines = (if rejects (replay Secondary k s0) ListSecretEngines then []
                else mounts (replay Secondary k s0))"
  "list_auth_methods (secondary (cluster_sync p0 s0 E)) k = Inr auth_methods \<Longrightarrow>
     auth_methods = (if rejects (replay Secondary k s0) ListAuthMethods then []
                     else auths (replay Secondary k s0))"
  "list_policies (secondary (cluster_sync p0 s0 E)) k = Inr names \<Longrightarrow>
     names = (if rejects (replay Secondary k s0) ListPolicies then []
              else map fst (policies (replay Secondary k s0)))"
  by (auto simp: cluster_sync_def init_def cluster_client_def Let_def)

lemma reset_leaves_cleared:
  assumes "clear_secondary (cluster_sync p0 s0 E) h = (True, h')"
  shows "cleared (replay Secondary h' s0)"
proof -
  from clear_secondary_structure[OF assms] obtain engines e1 auth_methods e2 names e3 where
    h': "h' = h @ Log INFO ''Clearing secondary cluster data'' []
                  # Call Secondary ListSecretEngines (RDict engines) # e1
                  @ Call Secondary ListAuthMethods (RDict auth_methods) # e2
                  @ Call Secondary ListPolicies (RNames names) # e3
                  @ [Log INFO ''Secondary cluster cleared successfully'' []]"
    and c1: "map fst (calls_to Secondary e1) =
             map (\<lambda>p. DisableSecretEngine (rstrip p))
               (filter (\<lambda>p. \<not> startswith p ''sys/'' \<and> \<not> startswith p ''identity/'')
                  (map fst engines))"
    and c2: "map fst (calls_to Secondary e2) =
             map (\<lambda>p. DisableAuthMethod (rstrip p))
               (filter (\<lambda>p. p \<noteq> ''token/'' \<and> \<not> startswith p ''sys/'') (map fst auth_methods))"
    and c3: "map fst (calls_to Secondary e3) =
             map DeletePolicy (filter (\<lambda>n. n \<notin> system_policies) names)"
    and l1: "list_secret_engines (secondary (cluster_sync p0 s0 E))
               (h @ [Log INFO ''Clearing secondary cluster data'' []]) = Inr engines"
    and l2: "list_auth_methods (secondary (cluster_sync p0 s0 E))
               (h @ Log INFO ''Clearing secondary cluster data'' []
                  # Call Secondary ListSecretEngines (RDict engines) # e1) = Inr auth_methods"
    and l3: "list_policies (secondary (cluster_sync p0 s0 E))
               (h @ Log INFO ''Clearing secondary cluster data'' []
                  # Call Secondary ListSecretEngines (RDict engines) # e1
                  @ Call Secondary ListAuthMethods (RDict auth_methods) # e2) = Inr names"
    by blast
  define cl where "cl = replay Secondary h s0"
  define cs1 where "cs1 = map fst (calls_to Secondary e1)"
  define cs2 where "cs2 = map fst (calls_to Secondary e2)"
  define cs3 where "cs3 = map fst (calls_to Secondary e3)"
  define cl_a where "cl_a = fold cluster_step cs1 cl"
  define cl_p where "cl_p = fold cluster_step cs2 cl_a"
  define cl1 where "cl1 = fold cluster_step cs3 cl_p"
  have s1: "\<forall>c\<in>set cs1. readonly c \<or> is_erase c" unfolding cs1_def c1 by auto
  have s2: "\<forall>c\<in>set cs2. readonly c \<or> is_erase c" unfolding cs2_def c2 by auto
  have s3: "\<forall>c\<in>set cs3. readonly c \<or> is_erase c" unfolding cs3_def c3 by auto
  have k1: "replay Secondary (h @ [Log INFO ''Clearing secondary cluster data'' []]) s0 = cl"
    by (simp add: replay_append cl_def)
  have k2: "replay Secondary (h @ Log INFO ''Clearing secondary cluster data'' []
                  # Call Secondary ListSecretEngines (RDict engines) # e1) s0 = cl_a"
    by (simp add: replay_append cl_def cl_a_def cs1_def readonly_cluster_step replay_calls[of _ e1])
  have k3: "replay Secondary (h @ Log INFO ''Clearing secondary cluster data'' []
                  # Call Secondary ListSecretEngines (RDict engines) # e1
                  @ Call Secondary ListAuthMethods (RDict auth_methods) # e2) s0 = cl_p"
    by (simp add: replay_append cl_def cl_a_def cl_p_def cs1_def cs2_def readonly_cluster_step
        replay_calls[of _ e1] replay_calls[of _ e2])
  have k4: "replay Secondary h' s0 = cl1"
    by (simp add: h' replay_append cl_def cl_a_def cl_p_def cl1_def cs1_def cs2_def cs3_def
        readonly_cluster_step replay_calls[of _ e1] replay_calls[of _ e2] replay_calls[of _ e3])
  have a1: "cl1 = fold cluster_step (cs1 @ cs2 @ cs3) cl"
    by (simp add: cl1_def cl_p_def cl_a_def)
  have a2: "cl1 = fold cluster_step (cs2 @ cs3) cl_a"
    by (simp add: cl1_def cl_p_def)
  have rj: "rejects cl1 c = rejects cl c" "rejects cl_a c = rejects cl c"
    "rejects cl_p c = rejects cl c" for c
    by (simp_all add: cl1_def cl_p_def cl_a_def rejects_fold)
  have m: "rstrip p @ ''/'' \<notin> fst ` set (mounts cl1)"
    if "\<not> rejects cl1 ListSecretEngines" "p \<in> fst ` set (mounts cl1)"
      "\<not> startswith p ''sys/''" "\<not> startswith p ''identity/''"
      "\<not> rejects cl1 (DisableSecretEngine (rstrip p))" for p
  proof -
    from s1 s2 s3 have sw: "\<forall>c\<in>set (cs1 @ cs2 @ cs3). readonly c \<or> is_erase c" by auto
    from sweep_fold_subset[OF sw, of cl] that(2) have "p \<in> fst ` set (mounts cl)"
      unfolding a1 by auto
    with cluster_listings(1)[OF l1] that(1) have "p \<in> fst ` set engines"
      by (simp add: k1 rj)
    with that(3,4) have "DisableSecretEngine (rstrip p) \<in> set (cs1 @ cs2 @ cs3)"
      unfolding cs1_def c1 by auto
    moreover from that(5) have "\<not> rejects cl (DisableSecretEngine (rstrip p))"
      by (simp add: rj)
    ultimately show ?thesis
      using sweep_fold_removed[OF sw, of "DisableSecretEngine (rstrip p)" cl "rstrip p"]
      unfolding a1 by blast
  qed
  have a: "rstrip p @ ''/'' \<notin> fst ` set (auths cl1)"
    if "\<not> rejects cl1 ListAuthMethods" "p \<in> fst ` set (auths cl1)"
      "p \<noteq> ''token/''" "\<not> startswith p ''sys/''"
      "\<not> rejects cl1 (DisableAuthMethod (rstrip p))" for p
  proof -
    from s2 s3 have sw: "\<forall>c\<in>set (cs2 @ cs3). readonly c \<or> is_erase c" by auto
    from sweep_fold_subset[OF sw, of cl_a] that(2) have "p \<in> fst ` set (auths cl_a)"
      unfolding a2 by auto
    with cluster_listings(2)[OF l2] that(1) have "p \<in> fst ` set auth_methods"
      by (simp add: k2 rj)
    with that(3,4) have "DisableAuthMethod (rstrip p) \<in> set (cs2 @ cs3)"
      unfolding cs2_def c2 by auto
    moreover from that(5) have "\<not> rejects cl_a (DisableAuthMethod (rstrip p))"
      by (simp add: rj)
    ultimately show ?thesis
      using sweep_fold_removed[OF sw, of "DisableAuthMethod (rstrip p)" cl_a "rstrip p"]
      unfolding a2 by blast
  qed
  have p: "rejects cl1 (DeletePolicy n)"
    if "\<not> rejects cl1 ListPolicies" "n \<in> fst ` set (policies cl1)"
      "n \<notin> system_policies" for n
  proof (rule ccontr)
    assume nr: "\<not> rejects cl1 (DeletePolicy n)"
    from sweep_fold_subset[OF s3, of cl_p] that(2) have "n \<in> fst ` set (policies cl_p)"
      unfolding cl1_def by auto
    with cluster_listings(3)[OF l3] that(1) have "n \<in> set names"
      by (simp add: k3 rj)
    with that(3) have "DeletePolicy n \<in> set cs3"
      unfolding cs3_def c3 by auto
    moreover from nr have "\<not> rejects cl_p (DeletePolicy n)"
      by (simp add: rj)
    ultimately show False
      using sweep_fold_removed[OF s3, of "DeletePolicy n" cl_p n] that(2)
      unfolding cl1_def by blast
  qed
  from m a p show ?thesis
    unfolding k4 cleared_def by blast
qed


lemma reset_of_cleared:
  assumes "clear_secondary (cluster_sync p0 s0 E) h = (True, h')"
    and cld: "cleared (replay Secondary h s0)"
  shows "\<exists>evs. h' = h @ evs
     \<and> (\<forall>c \<in> set (map fst (calls_to Secondary evs)).
           cluster_step c (replay Secondary h s0) = replay Secondary h s0)"
proof -
  from clear_secondary_structure[OF assms(1)] obtain engines e1 auth_methods e2 names e3 where
    h': "h' = h @ Log INFO ''Clearing secondary cluster data'' []
                  # Call Secondary ListSecretEngines (RDict engines) # e1
                  @ Call Secondary ListAuthMethods (RDict auth_methods) # e2
                  @ Call Secondary ListPolicies (RNames names) # e3
                  @ [Log INFO ''Secondary cluster cleared successfully'' []]"
    and c1: "map fst (calls_to Secondary e1) =
             map (\<lambda>p. DisableSecretEngine (rstrip p))
               (filter (\<lambda>p. \<not> startswith p ''sys/'' \<and> \<not> startswith p ''identity/'')
                  (map fst engines))"
    and c2: "map fst (calls_to Secondary e2) =
             map (\<lambda>p. DisableAuthMethod (rstrip p))
               (filter (\<lambda>p. p \<noteq> ''token/'' \<and> \<not> startswith p ''sys/'') (map fst auth_methods))"
    and c3: "map fst (calls_to Secondary e3) =
             map DeletePolicy (filter (\<lambda>n. n \<notin> system_policies) names)"
    and l1: "list_secret_engines (secondary (cluster_sync p0 s0 E))
               (h @ [Log INFO ''Clearing secondary cluster data'' []]) = Inr engines"
    and l2: "list_auth_methods (secondary (cluster_sync p0 s0 E))
               (h @ Log INFO ''Clearing secondary cluster data'' []
                  # Call Secondary ListSecretEngines (RDict engines) # e1) = Inr auth_methods"
    and l3: "list_policies (secondary (cluster_sync p0 s0 E))
               (h @ Log INFO ''Clearing secondary cluster data'' []
                  # Call Secondary ListSecretEngines (RDict engines) # e1
                  @ Call Secondary ListAuthMethods (RDict auth_methods) # e2) = Inr names"
    by blast
  define cl where "cl = replay Secondary h s0"
  define cs1 where "cs1 = map fst (calls_to Secondary e1)"
  define cs2 where "cs2 = map fst (calls_to Secondary e2)"
  define cs3 where "cs3 = map fst (calls_to Secondary e3)"
  have k1: "replay Secondary (h @ [Log INFO ''Clearing secondary cluster data'' []]) s0 = cl"
    by (simp add: replay_append cl_def)
  have n1: "\<forall>c\<in>set cs1. cluster_step c cl = cl"
  proof
    fix c assume "c \<in> set cs1"
    then obtain p where p: "c = DisableSecretEngine (rstrip p)" "p \<in> fst ` set engines"
      "\<not> startswith p ''sys/''" "\<not> startswith p ''identity/''"
      unfolding cs1_def c1 by auto
    from p(2) cluster_listings(1)[OF l1] have "\<not> rejects cl ListSecretEngines"
      "p \<in> fst ` set (mounts cl)"
      by (auto simp: k1 split: if_splits)
    with cld p(3,4) have "rejects cl c \<or> rstrip p @ ''/'' \<notin> fst ` set (mounts cl)"
      unfolding cleared_def cl_def[symmetric] p(1) by blast
    then show "cluster_step c cl = cl"
      unfolding p(1) using rejected_step absent_step(1) by blast
  qed
  have k2: "replay Secondary (h @ Log INFO ''Clearing secondary cluster data'' []
                  # Call Secondary ListSecretEngines (RDict engines) # e1) s0 = cl"
    using fold_noop[OF n1]
    by (simp add: replay_append cl_def cs1_def readonly_cluster_step replay_calls[of _ e1])
  have n2: "\<forall>c\<in>set cs2. cluster_step c cl = cl"
  proof
    fix c assume "c \<in> set cs2"
    then obtain p where p: "c = DisableAuthMethod (rstrip p)" "p \<in> fst ` set auth_methods"
      "p \<noteq> ''token/''" "\<not> startswith p ''sys/''"
      unfolding cs2_def c2 by auto
    from p(2) cluster_listings(2)[OF l2] have "\<not> rejects cl ListAuthMethods"
      "p \<in> fst ` set (auths cl)"
      by (auto simp: k2 split: if_splits)
    with cld p(3,4) have "rejects cl c \<or> rstrip p @ ''/'' \<notin> fst ` set (auths cl)"
      unfolding cleared_def cl_def[symmetric] p(1) by blast
    then show "cluster_step c cl = cl"
      unfolding p(1) using rejected_step absent_step(2) by blast
  qed
  have k3: "replay Secondary (h @ Log INFO ''Clearing secondary cluster data'' []
                  # Call Secondary ListSecretEngines (RDict engines) # e1
                  @ Call Secondary ListAuthMethods (RDict auth_methods) # e2) s0 = cl"
    using fold_noop[OF n1] fold_noop[OF n2]
    by (simp add: replay_append cl_def cs1_def cs2_def readonly_cluster_step
        replay_calls[of _ e1] replay_calls[of _ e2])
  have n3: "\<forall>c\<in>set cs3. cluster_step c cl = cl"
  proof
    fix c assume "c \<in> set cs3"
    then obtain n where p: "c = DeletePolicy n" "n \<in> set names" "n \<notin> system_policies"
      unfolding cs3_def c3 by auto
    from p(2) cluster_listings(3)[OF l3] have "\<not> rejects cl ListPolicies"
      "n \<in> fst ` set (policies cl)"
      by (auto simp: k3 split: if_splits)
    with cld p(3) have "rejects cl c"
      unfolding cleared_def cl_def[symmetric] p(1) by blast
    then show "cluster_step c cl = cl"
      by (rule rejected_step)
  qed
  let ?evs = "Log INFO ''Clearing secondary cluster data'' []
                  # Call Secondary ListSecretEngines (RDict engines) # e1
                  @ Call Secondary ListAuthMethods (RDict auth_methods) # e2
                  @ Call Secondary ListPolicies (RNames names) # e3
                  @ [Log INFO ''Secondary cluster cleared successfully'' []]"
  have "set (map fst (calls_to Secondary ?evs)) =
      {ListSecretEngines, ListAuthMethods, ListPolicies} \<union> set cs1 \<union> set cs2 \<union> set cs3"
    by (auto simp: calls_to_append cs1_def cs2_def cs3_def)
  with n1 n2 n3 have "\<forall>c \<in> set (map fst (calls_to Secondary ?evs)). cluster_step c cl = cl"
    by (auto simp: readonly_cluster_step)
  with h' show ?thesis unfolding cl_def by blast
qed

text \<open>
  C8. Against the reference cluster the reset always reports success, and a second reset run
  right after a first one changes nothing: every call it sends, each disable and delete
  included, leaves the secondary in the state the first run left it in.
\<close>

theorem reset_twice_is_idempotent:
  "clear_secondary (cluster_sync p0 s0 E) h = (r1, h1)
   \<and> clear_secondary (cluster_sync p0 s0 E) h1 = (r2, h2) \<longrightarrow>
     r1 \<and> r2
     \<and> (\<exists>evs. h2 = h1 @ evs
          \<and> (\<forall>c \<in> set (map fst (calls_to Secondary evs)).
                cluster_step c (replay Secondary h1 s0) = replay Secondary h1 s0))
     \<and> replay Secondary h2 s0 = replay Secondary h1 s0"
proof (intro impI, elim conjE)
  assume a1: "clear_secondary (cluster_sync p0 s0 E) h = (r1, h1)"
    and a2: "clear_secondary (cluster_sync p0 s0 E) h1 = (r2, h2)"
  from cluster_reset_succeeds[OF a1] cluster_reset_succeeds[OF a2] have r: "r1" "r2" by simp_all
  with a1 a2 have b1: "clear_secondary (cluster_sync p0 s0 E) h = (True, h1)"
    and b2: "clear_secondary (cluster_sync p0 s0 E) h1 = (True, h2)" by simp_all
  from reset_of_cleared[OF b2 reset_leaves_cleared[OF b1]] obtain evs where
    e: "h2 = h1 @ evs" "\<forall>c \<in> set (map fst (calls_to Secondary evs)).
           cluster_step c (replay Secondary h1 s0) = replay Secondary h1 s0"
    by blast
  have "replay Secondary h2 s0 = replay Secondary h1 s0"
    using fold_noop[OF e(2)] by (simp add: e(1) replay_append replay_calls[of _ evs])
  with r e show "r1 \<and> r2
     \<and> (\<exists>evs. h2 = h1 @ evs
          \<and> (\<forall>c \<in> set (map fst (calls_to Secondary evs)).
                cluster_step c (replay Secondary h1 s0) = replay Secondary h1 s0))
     \<and> replay Secondary h2 s0 = replay Secondary h1 s0"
    by blast
qed

lemma stubborn_reset_once:
  "clear_secondary (cluster_sync demo_primary stubborn_secondary []) [] = (True, reset_once)"
  by code_simp

lemma stubborn_reset_again:
  "clear_secondary (cluster_sync demo_primary stubborn_secondary []) reset_once
     = (True, reset_once @ reset_again)"
  by code_simp

theorem reset_twice_is_idempotent_witness:
  "clear_secondary (cluster_sync demo_primary stubborn_secondary []) [] = (True, reset_once)
   \<and> clear_secondary (cluster_sync demo_primary stubborn_secondary []) reset_once
       = (True, reset_once @ reset_again)
   \<and> map fst (filter (\<lambda>cr. is_erase (fst cr)) (calls_to Secondary reset_again))
       = [DeletePolicy ''custom1'']
   \<and> replay Secondary (reset_once @ reset_again) stubborn_secondary
       = replay Secondary reset_once stubborn_secondary"
  using reset_twice_is_idempotent
          [where ?p0.0 = demo_primary and ?s0.0 = stubborn_secondary and E = "[]" and h = "[]"
             and ?r1.0 = True and ?h1.0 = reset_once and ?r2.0 = True
             and ?h2.0 = "reset_once @ reset_again"]
    stubborn_reset_once stubborn_reset_again
  by (simp add: reset_again_def)

end
